theory Spec2Isabelle
  imports Complex_Main "HOL-Library.AList"
begin

text \<open>
  A model of \<^verbatim>\<open>app.py\<close>, the worker that drains the queue of invoices, validates each
  against the SUNAT service and reconciles the answers into the history, the snapshot and
  the final table. Each function of the source is a function here, under its own name. What
  the outside does (the HTTP servers, the clock, the failures of the database, the text
  functions of the libraries) is a parameter; an exception is a value. The tables are lists of
  rows, and the connection is the pair of the committed and the uncommitted tables. The
  first half of the theory holds the model, the second half its properties.
\<close>

section \<open>Python values\<close>

text \<open>
  The payloads that travel through \<^verbatim>\<open>app.py\<close> are decoded JSON documents. A Python float is
  either a finite binary fraction (a rational number) or one of the three special values; a
  dict is an association list with distinct keys, in insertion order. Strings are lists of
  characters with code points below 256.
\<close>

datatype pyfloat = Finite rat | PosInf | NegInf | NaN

datatype json =
    JNull
  | JBool bool
  | JInt int
  | JFloat pyfloat
  | JStr string
  | JArr "json list"
  | JObj "(string \<times> json) list"

text \<open>\<^verbatim>\<open>d.get(k)\<close>: the value stored under \<^verbatim>\<open>k\<close>, \<^verbatim>\<open>None\<close> when the key is absent.\<close>

definition dict_get :: "(string \<times> json) list \<Rightarrow> string \<Rightarrow> json" where
  "dict_get kvs k = (case map_of kvs k of None \<Rightarrow> JNull | Some v \<Rightarrow> v)"

text \<open>Python's truth value of a decoded JSON value (\<^verbatim>\<open>x or y\<close>, \<^verbatim>\<open>if x\<close>).\<close>

fun truthy :: "json \<Rightarrow> bool" where
  "truthy JNull = False"
| "truthy (JBool b) = b"
| "truthy (JInt n) = (n \<noteq> 0)"
| "truthy (JFloat (Finite r)) = (r \<noteq> 0)"
| "truthy (JFloat _) = True"
| "truthy (JStr s) = (s \<noteq> [])"
| "truthy (JArr xs) = (xs \<noteq> [])"
| "truthy (JObj kvs) = (kvs \<noteq> [])"

section \<open>Exceptions\<close>

text \<open>A raised exception: its class and its \<^verbatim>\<open>str(...)\<close>.\<close>

datatype exn_class =
    ValueError | TypeError | KeyError | AttributeError | OverflowError | InvalidOperation
  | RuntimeError | RequestException | DatabaseError | OtherException

datatype exn = Exn exn_class string

fun exn_text :: "exn \<Rightarrow> string" where
  "exn_text (Exn c msg) = msg"

fun exn_kind :: "exn \<Rightarrow> exn_class" where
  "exn_kind (Exn c msg) = c"

text \<open>The name of the Python type of a decoded JSON value, as error messages print it.\<close>

fun type_name :: "json \<Rightarrow> string" where
  "type_name JNull = ''NoneType''"
| "type_name (JBool b) = ''bool''"
| "type_name (JInt n) = ''int''"
| "type_name (JFloat f) = ''float''"
| "type_name (JStr s) = ''str''"
| "type_name (JArr xs) = ''list''"
| "type_name (JObj kvs) = ''dict''"

definition quoted :: "string \<Rightarrow> string" where
  "quoted s = [CHR 0x27] @ s @ [CHR 0x27]"

section \<open>Integers and text\<close>

subsection \<open>Decimal text of integers\<close>

definition digit_char :: "nat \<Rightarrow> char" where
  "digit_char d = ''0123456789'' ! (d mod 10)"

fun str_nat :: "nat \<Rightarrow> string" where
  "str_nat n = (if n < 10 then [digit_char n] else str_nat (n div 10) @ [digit_char (n mod 10)])"

declare str_nat.simps [simp del]

text \<open>\<^verbatim>\<open>str(n)\<close> for a Python int.\<close>

definition str_int :: "int \<Rightarrow> string" where
  "str_int n = (if n < 0 then CHR ''-'' # str_nat (nat (- n)) else str_nat (nat n))"

text \<open>
  The interpreter refuses to convert between an int and a decimal text of more than
  \<^verbatim>\<open>sys.get_int_max_str_digits()\<close> digits, 4300 unless configured otherwise, and raises
  \<^verbatim>\<open>ValueError\<close>. An int has more than 4300 digits when its magnitude is at least
  \<open>10 ^ 4300\<close>. \<open>py_str_int\<close> is \<^verbatim>\<open>str(n)\<close> (and \<^verbatim>\<open>repr(n)\<close>, \<^verbatim>\<open>format(n, "")\<close>) for an int.
\<close>

definition max_str_digits :: nat where
  "max_str_digits = 4300"

definition limit_error :: exn where
  "limit_error =
     Exn ValueError (''Exceeds the limit (4300 digits) for integer string conversion; ''
                     @ ''use sys.set_int_max_str_digits() to increase the limit'')"

definition long_int :: "int \<Rightarrow> bool" where
  "long_int n = (10 ^ max_str_digits \<le> \<bar>n\<bar>)"

definition py_str_int :: "int \<Rightarrow> exn + string" where
  "py_str_int n = (if long_int n then Inl limit_error else Inr (str_int n))"

text \<open>
  A decoded JSON value holds an int whose text is over the limit: its \<^verbatim>\<open>str\<close>, \<^verbatim>\<open>repr\<close>
  and \<^verbatim>\<open>json.dumps\<close> raise.
\<close>

fun exceeds_limit :: "json \<Rightarrow> bool" where
  "exceeds_limit (JInt n) = long_int n"
| "exceeds_limit (JArr xs) = list_ex exceeds_limit xs"
| "exceeds_limit (JObj kvs) = list_ex (\<lambda>kv. exceeds_limit (snd kv)) kvs"
| "exceeds_limit v = False"

subsection \<open>Whitespace and \<^verbatim>\<open>int(...)\<close>\<close>

text \<open>
  \<^verbatim>\<open>str.strip()\<close> removes the characters for which \<^verbatim>\<open>str.isspace\<close> holds: below 256 these
  are the code points 9 to 13, 28 to 32, 133 and 160. \<^verbatim>\<open>int(s)\<close> removes a smaller set: it
  does not skip the separators 28 to 31.
\<close>

definition is_space :: "char \<Rightarrow> bool" where
  "is_space c = ((of_char c :: nat) \<in> {9, 10, 11, 12, 13, 28, 29, 30, 31, 32, 133, 160})"

definition is_int_space :: "char \<Rightarrow> bool" where
  "is_int_space c = ((of_char c :: nat) \<in> {9, 10, 11, 12, 13, 32, 133, 160})"

definition strip_with :: "(char \<Rightarrow> bool) \<Rightarrow> string \<Rightarrow> string" where
  "strip_with sp s = rev (dropWhile sp (rev (dropWhile sp s)))"

definition strip :: "string \<Rightarrow> string" where
  "strip s = strip_with is_space s"

definition is_digit :: "char \<Rightarrow> bool" where
  "is_digit c = (48 \<le> (of_char c :: nat) \<and> (of_char c :: nat) \<le> 57)"

definition digit_val :: "char \<Rightarrow> nat" where
  "digit_val c = of_char c - 48"

text \<open>
  The digits of a base-10 literal after the first one: a digit, or one underscore followed by
  a digit. \<open>None\<close>: the text is not a literal.
\<close>

fun more_digits :: "int \<Rightarrow> string \<Rightarrow> int option" where
  "more_digits acc [] = Some acc"
| "more_digits acc [c] = (if is_digit c then Some (10 * acc + int (digit_val c)) else None)"
| "more_digits acc (c # d # ds) =
     (if is_digit c then more_digits (10 * acc + int (digit_val c)) (d # ds)
      else if c = CHR ''_'' \<and> is_digit d then more_digits (10 * acc + int (digit_val d)) ds
      else None)"

fun unsigned_literal :: "string \<Rightarrow> int option" where
  "unsigned_literal [] = None"
| "unsigned_literal (c # cs) = (if is_digit c then more_digits (int (digit_val c)) cs else None)"

fun signed_literal :: "string \<Rightarrow> int option" where
  "signed_literal [] = None"
| "signed_literal (c # cs) =
     (if c = CHR ''-'' then map_option uminus (unsigned_literal cs)
      else if c = CHR ''+'' then unsigned_literal cs
      else unsigned_literal (c # cs))"

text \<open>
  \<^verbatim>\<open>repr(s)\<close> of a string: single quotes, unless the string holds a single and no double
  quote; the quote and the backslash are escaped, tab, newline and return have their letters,
  and every other character that is not printable is \<^verbatim>\<open>\xhh\<close>.
\<close>

definition hex_char :: "nat \<Rightarrow> char" where
  "hex_char d = ''0123456789abcdef'' ! (d mod 16)"

definition printable :: "char \<Rightarrow> bool" where
  "printable c =
     ((32 \<le> (of_char c :: nat) \<and> (of_char c :: nat) < 127)
      \<or> (161 \<le> (of_char c :: nat) \<and> (of_char c :: nat) \<noteq> 173))"

definition repr_char :: "char \<Rightarrow> char \<Rightarrow> string" where
  "repr_char q c =
     (if c = q \<or> c = CHR 0x5C then [CHR 0x5C, c]
      else if c = CHR 0x09 then [CHR 0x5C, CHR ''t'']
      else if c = CHR 0x0A then [CHR 0x5C, CHR ''n'']
      else if c = CHR 0x0D then [CHR 0x5C, CHR ''r'']
      else if \<not> printable c
      then [CHR 0x5C, CHR ''x'', hex_char (of_char c div 16), hex_char (of_char c mod 16)]
      else [c])"

definition repr_str :: "string \<Rightarrow> string" where
  "repr_str s =
     (let q = (if CHR 0x27 \<in> set s \<and> CHR 0x22 \<notin> set s then CHR 0x22 else CHR 0x27)
      in [q] @ concat (map (repr_char q) s) @ [q])"

text \<open>
  \<^verbatim>\<open>int(s)\<close> for a string. The text is stripped and its sign read; the digits and
  underscores that follow are scanned, and when they are well formed and hold more than 4300
  digits the limit error is raised, before anything after them is looked at. Otherwise the
  whole text must be a literal.
\<close>

definition int_limit_error :: "nat \<Rightarrow> exn" where
  "int_limit_error k =
     Exn ValueError (''Exceeds the limit (4300 digits) for integer string conversion: value has ''
                     @ str_nat k
                     @ '' digits; use sys.set_int_max_str_digits() to increase the limit'')"

definition invalid_literal :: "string \<Rightarrow> exn" where
  "invalid_literal s =
     Exn ValueError (''invalid literal for int() with base 10: '' @ take 200 (repr_str s))"

definition unsigned_part :: "string \<Rightarrow> string" where
  "unsigned_part t =
     (case t of
        [] \<Rightarrow> []
      | c # cs \<Rightarrow> if c = CHR ''-'' \<or> c = CHR ''+'' then cs else t)"

definition int_of_str :: "string \<Rightarrow> exn + int" where
  "int_of_str s =
     (let t = strip_with is_int_space s;
          p = takeWhile (\<lambda>c. is_digit c \<or> c = CHR ''_'') (unsigned_part t);
          k = length (filter is_digit p)
      in if unsigned_literal p \<noteq> None \<and> max_str_digits < k then Inl (int_limit_error k)
         else case signed_literal t of
                Some n \<Rightarrow> Inr n
              | None \<Rightarrow> Inl (invalid_literal s))"

text \<open>
  \<^verbatim>\<open>int(v)\<close> for a decoded JSON value. A bool is 0 or 1, a finite float is truncated towards
  zero.
\<close>

definition trunc_rat :: "rat \<Rightarrow> int" where
  "trunc_rat r = (if 0 \<le> r then \<lfloor>r\<rfloor> else \<lceil>r\<rceil>)"

definition int_type_error :: "json \<Rightarrow> exn" where
  "int_type_error v =
     Exn TypeError (''int() argument must be a string, a bytes-like object or a real number, not ''
                    @ quoted (type_name v))"

fun py_int :: "json \<Rightarrow> exn + int" where
  "py_int JNull = Inl (int_type_error JNull)"
| "py_int (JBool b) = Inr (if b then 1 else 0)"
| "py_int (JInt n) = Inr n"
| "py_int (JFloat (Finite r)) = Inr (trunc_rat r)"
| "py_int (JFloat NaN) = Inl (Exn ValueError ''cannot convert float NaN to integer'')"
| "py_int (JFloat PosInf) = Inl (Exn OverflowError ''cannot convert float infinity to integer'')"
| "py_int (JFloat NegInf) = Inl (Exn OverflowError ''cannot convert float infinity to integer'')"
| "py_int (JStr s) = int_of_str s"
| "py_int (JArr xs) = Inl (int_type_error (JArr xs))"
| "py_int (JObj kvs) = Inl (int_type_error (JObj kvs))"

text \<open>
  \<^verbatim>\<open>str(v)\<close>, which is also \<^verbatim>\<open>format(v, "")\<close>. The shortest-round-trip text of a finite
  float and the text of the items of a list or a dict are not computed here: the parameter
  \<open>items\<close> supplies them, and a list or a dict is that text between its brackets. The text
  of an int, or of a list or dict that holds an int, is subject to the limit.
\<close>

fun py_str :: "(json \<Rightarrow> string) \<Rightarrow> json \<Rightarrow> exn + string" where
  "py_str items JNull = Inr ''None''"
| "py_str items (JBool b) = Inr (if b then ''True'' else ''False'')"
| "py_str items (JInt n) = py_str_int n"
| "py_str items (JFloat (Finite r)) = Inr (items (JFloat (Finite r)))"
| "py_str items (JFloat PosInf) = Inr ''inf''"
| "py_str items (JFloat NegInf) = Inr ''-inf''"
| "py_str items (JFloat NaN) = Inr ''nan''"
| "py_str items (JStr s) = Inr s"
| "py_str items (JArr xs) =
     (if exceeds_limit (JArr xs) then Inl limit_error else Inr (''['' @ items (JArr xs) @ '']''))"
| "py_str items (JObj kvs) =
     (if exceeds_limit (JObj kvs) then Inl limit_error else Inr (''{'' @ items (JObj kvs) @ ''}''))"

section \<open>Status mapper\<close>

text \<open>
  \<^verbatim>\<open>_as_str(v)\<close>: \<^verbatim>\<open>None\<close> for \<^verbatim>\<open>None\<close>; the text \<^verbatim>\<open>str(int(v))\<close> when it can be made;
  otherwise, whatever the exception was, the stripped text \<^verbatim>\<open>str(v)\<close>, or \<^verbatim>\<open>None\<close> when
  that is empty. An exception raised in the \<^verbatim>\<open>except\<close> clause leaves the function.
\<close>

definition as_str :: "(json \<Rightarrow> string) \<Rightarrow> json \<Rightarrow> exn + string option" where
  "as_str items v =
     (if v = JNull then Inr None
      else case (case py_int v of Inl e \<Rightarrow> Inl e | Inr n \<Rightarrow> py_str_int n) of
             Inr t \<Rightarrow> Inr (Some t)
           | Inl e \<Rightarrow>
               (case py_str items v of
                  Inl e' \<Rightarrow> Inl e'
                | Inr t \<Rightarrow> (let s = strip t in Inr (if s \<noteq> [] then Some s else None))))"

definition catalogo :: "(string \<times> string \<times> string) list" where
  "catalogo =
     [(''0'', ''NO EXISTE'', ''NO EXISTE (0)''),
      (''1'', ''ACEPTADO'', ''ACEPTADO (1)''),
      (''2'', ''ANULADO'', ''ANULADO (2)''),
      (''3'', ''AUTORIZADO'', ''AUTORIZADO (3)''),
      (''4'', ''NO AUTORIZADO'', ''NO AUTORIZADO (4)'')]"

text \<open>\<^verbatim>\<open>estado_cp\<close> of \<^verbatim>\<open>map_estado\<close>: the normalised text of \<^verbatim>\<open>js["data"]["estadoCp"]\<close>.\<close>

definition estado_cp_of :: "(json \<Rightarrow> string) \<Rightarrow> json \<Rightarrow> exn + string option" where
  "estado_cp_of items js =
     (let data = (case js of JObj kvs \<Rightarrow> dict_get kvs ''data'' | _ \<Rightarrow> JNull)
      in case data of JObj d \<Rightarrow> as_str items (dict_get d ''estadoCp'') | _ \<Rightarrow> Inr None)"

definition map_estado ::
  "(json \<Rightarrow> string) \<Rightarrow> json \<Rightarrow> exn + string option \<times> string option \<times> string option" where
  "map_estado items js =
     (case estado_cp_of items js of
        Inl e \<Rightarrow> Inl e
      | Inr None \<Rightarrow> Inr (None, None, None)
      | Inr (Some estado_cp) \<Rightarrow>
          (case map_of catalogo estado_cp of
             Some (nom, desc) \<Rightarrow> Inr (Some nom, Some desc, Some estado_cp)
           | None \<Rightarrow>
               Inr (Some (''CODE_'' @ estado_cp), Some (''NO_MAPEADO ('' @ estado_cp @ '')''),
                    Some estado_cp)))"

text \<open>
  The value that \<^verbatim>\<open>map_estado\<close> reads: \<^verbatim>\<open>js["data"]["estadoCp"]\<close>, and \<^verbatim>\<open>None\<close> when the
  payload or its \<^verbatim>\<open>data\<close> member is not a dict or the key is missing.
\<close>

definition code_field :: "json \<Rightarrow> json" where
  "code_field js =
     (case js of
        JObj kvs \<Rightarrow> (case dict_get kvs ''data'' of JObj d \<Rightarrow> dict_get d ''estadoCp'' | _ \<Rightarrow> JNull)
      | _ \<Rightarrow> JNull)"

text \<open>
  The status table as the specification words it, on a normalised code: the five catalogue
  entries, a synthetic pair for any other code, and all-null for no code.
\<close>

definition mapStatus_spec ::
  "string option \<Rightarrow> string option \<times> string option \<times> string option" where
  "mapStatus_spec code =
     (case code of
        None \<Rightarrow> (None, None, None)
      | Some s \<Rightarrow>
          if s = ''0'' then (Some ''NO EXISTE'', Some ''NO EXISTE (0)'', Some ''0'')
          else if s = ''1'' then (Some ''ACEPTADO'', Some ''ACEPTADO (1)'', Some ''1'')
          else if s = ''2'' then (Some ''ANULADO'', Some ''ANULADO (2)'', Some ''2'')
          else if s = ''3'' then (Some ''AUTORIZADO'', Some ''AUTORIZADO (3)'', Some ''3'')
          else if s = ''4'' then (Some ''NO AUTORIZADO'', Some ''NO AUTORIZADO (4)'', Some ''4'')
          else (Some (''CODE_'' @ s), Some (''NO_MAPEADO ('' @ s @ '')''), Some s))"

text \<open>The stripped text, and null when nothing is left of it.\<close>

definition stripped_text :: "string \<Rightarrow> string option" where
  "stripped_text t = (if strip t \<noteq> [] then Some (strip t) else None)"

text \<open>A rendering for payloads that hold no float, list or dict where a text is asked for.\<close>

definition no_items :: "json \<Rightarrow> string" where
  "no_items v = []"

section \<open>Rows\<close>

text \<open>
  A finite \<^verbatim>\<open>decimal.Decimal\<close>: sign, coefficient and exponent; its value is
  \<open>\<plusminus> dcoeff \<times> 10 ^ dexp\<close>. The amount of a row is the value of \<^verbatim>\<open>Decimal(tot)\<close>, which
  for a decimal, a float or an int column is the exact value of \<^verbatim>\<open>tot\<close>.
\<close>

record decimal =
  dneg :: bool
  dcoeff :: nat
  dexp :: int

text \<open>
  The issue date as the driver returns it: NULL, a date (of a type \<open>'d\<close> that \<^verbatim>\<open>strftime\<close>
  formats), or another value, given by its \<^verbatim>\<open>str(...)\<close>.
\<close>

datatype 'd fecha = FechaNull | FechaDate 'd | FechaText string

text \<open>
  A row as \<^verbatim>\<open>fetch_batch\<close> returns it: the nine columns of the \<^verbatim>\<open>OUTPUT\<close> clause.
  Text columns are nullable.
\<close>

record 'd row =
  IdQueue :: int
  IdFactura :: int
  RUC_Emisor :: "string option"
  RUC_Receptor :: "string option"
  TipoDocumento :: "string option"
  Serie :: "string option"
  Numero :: "string option"
  FechaEmision :: "'d fecha"
  ImporteTotal :: "decimal option"

type_synonym datetime = int

text \<open>A row of \<^verbatim>\<open>INH.SUNAT_ESTADO_ACTUAL\<close>; \<^verbatim>\<open>Cambio_Estado\<close> is a nullable bit.\<close>

record snapshot_row =
  s_IdFactura :: int
  s_RUC_Emisor :: "string option"
  s_RUC_Receptor :: "string option"
  s_TipoDocumento :: "string option"
  s_Serie :: "string option"
  s_Numero :: "string option"
  s_ImporteTotal :: "decimal option"
  Estado_Actual :: "string option"
  Estado_Descripcion :: "string option"
  Codigo_Respuesta :: "string option"
  Mensaje :: "string option"
  Fecha_Primera_Consulta :: "datetime option"
  Fecha_Ultima_Consulta :: "datetime option"
  Fecha_Ultimo_Cambio :: "datetime option"
  Cambio_Estado :: "bool option"

section \<open>Snapshot reconciler\<close>

text \<open>\<^verbatim>\<open>x or ""\<close> for a nullable text.\<close>

definition or_empty :: "string option \<Rightarrow> string" where
  "or_empty x = (case x of None \<Rightarrow> [] | Some s \<Rightarrow> s)"

text \<open>The truth value of a nullable text: \<^verbatim>\<open>None\<close> and the empty string are false.\<close>

definition truthy_text :: "string option \<Rightarrow> bool" where
  "truthy_text x = (case x of None \<Rightarrow> False | Some s \<Rightarrow> s \<noteq> [])"

text \<open>\<^verbatim>\<open>WHERE IdFactura=?\<close> on the snapshot table.\<close>

definition has_id :: "int \<Rightarrow> snapshot_row \<Rightarrow> bool" where
  "has_id idf s = (s_IdFactura s = idf)"

text \<open>
  \<^verbatim>\<open>upsert_snapshot\<close>, on the table as a list of rows. \<^verbatim>\<open>fetchone\<close> is the first row that
  matches; an \<^verbatim>\<open>UPDATE\<close> rewrites every row that matches; the \<^verbatim>\<open>INSERT\<close> adds a row.
  \<open>ahora\<close> is the clock reading taken at the start of the call.
\<close>

definition upsert_snapshot ::
  "datetime \<Rightarrow> snapshot_row list \<Rightarrow> 'd row \<Rightarrow> string option \<Rightarrow> string option \<Rightarrow>
   string option \<Rightarrow> string option \<Rightarrow> snapshot_row list" where
  "upsert_snapshot ahora tbl r estado_txt estado_desc codigo_respuesta mensaje =
     (case find (has_id (IdFactura r)) tbl of
        None \<Rightarrow>
          tbl @
          [\<lparr>s_IdFactura = IdFactura r, s_RUC_Emisor = RUC_Emisor r,
            s_RUC_Receptor = RUC_Receptor r, s_TipoDocumento = TipoDocumento r,
            s_Serie = Serie r, s_Numero = Numero r, s_ImporteTotal = ImporteTotal r,
            Estado_Actual = estado_txt, Estado_Descripcion = estado_desc,
            Codigo_Respuesta = codigo_respuesta, Mensaje = mensaje,
            Fecha_Primera_Consulta = Some ahora, Fecha_Ultima_Consulta = Some ahora,
            Fecha_Ultimo_Cambio = Some ahora,
            Cambio_Estado = Some (truthy_text estado_txt)\<rparr>]
      | Some prev \<Rightarrow>
          (let cambio = (or_empty (Estado_Actual prev) \<noteq> or_empty estado_txt
                         \<or> or_empty (Estado_Descripcion prev) \<noteq> or_empty estado_desc)
           in if cambio then
                map (\<lambda>s. if has_id (IdFactura r) s
                          then s\<lparr>Estado_Actual := estado_txt, Estado_Descripcion := estado_desc,
                                 Codigo_Respuesta := codigo_respuesta, Mensaje := mensaje,
                                 Fecha_Ultima_Consulta := Some ahora,
                                 Fecha_Ultimo_Cambio := Some ahora,
                                 Cambio_Estado := Some True\<rparr>
                          else s) tbl
              else
                map (\<lambda>s. if has_id (IdFactura r) s
                          then s\<lparr>Codigo_Respuesta := codigo_respuesta, Mensaje := mensaje,
                                 Fecha_Ultima_Consulta := Some ahora,
                                 Cambio_Estado := Some False\<rparr>
                          else s) tbl))"

text \<open>
  One reconciliation as a value (clock reading, row and the four mapped fields), and a run of
  reconciliations applied one after the other.
\<close>

record 'd reconciliation =
  rc_ahora :: datetime
  rc_row :: "'d row"
  rc_estado_txt :: "string option"
  rc_estado_desc :: "string option"
  rc_codigo :: "string option"
  rc_mensaje :: "string option"

definition reconcile :: "snapshot_row list \<Rightarrow> 'd reconciliation \<Rightarrow> snapshot_row list" where
  "reconcile tbl c =
     upsert_snapshot (rc_ahora c) tbl (rc_row c) (rc_estado_txt c) (rc_estado_desc c)
       (rc_codigo c) (rc_mensaje c)"

definition reconcile_all :: "snapshot_row list \<Rightarrow> 'd reconciliation list \<Rightarrow> snapshot_row list" where
  "reconcile_all tbl cs = foldl reconcile tbl cs"

text \<open>The stored pair differs from the new one, null read as the empty string.\<close>

definition pair_differs :: "snapshot_row \<Rightarrow> string option \<Rightarrow> string option \<Rightarrow> bool" where
  "pair_differs prev estado_txt estado_desc =
     ((or_empty (Estado_Actual prev), or_empty (Estado_Descripcion prev))
        \<noteq> (or_empty estado_txt, or_empty estado_desc))"

subsection \<open>The scenario of the specification\<close>

text \<open>
  Invoice 100 of issuer 20123456789, type 01, series F001, number 123, issued on 2024-01-15
  for 150.5; its snapshot row after a first reconciliation at time 10 that found it
  ACEPTADO; and a second reconciliation at time 20 that finds it ANULADO.
\<close>

type_synonym date = "nat \<times> nat \<times> nat"

definition example_row :: "date row" where
  "example_row =
     \<lparr>IdQueue = 1, IdFactura = 100, RUC_Emisor = Some ''20123456789'', RUC_Receptor = None,
      TipoDocumento = Some ''01'', Serie = Some ''F001'', Numero = Some ''123'',
      FechaEmision = FechaDate (2024, 1, 15),
      ImporteTotal = Some \<lparr>dneg = False, dcoeff = 1505, dexp = - 1\<rparr>\<rparr>"

definition example_snapshot :: snapshot_row where
  "example_snapshot =
     \<lparr>s_IdFactura = 100, s_RUC_Emisor = Some ''20123456789'', s_RUC_Receptor = None,
      s_TipoDocumento = Some ''01'', s_Serie = Some ''F001'', s_Numero = Some ''123'',
      s_ImporteTotal = Some \<lparr>dneg = False, dcoeff = 1505, dexp = - 1\<rparr>,
      Estado_Actual = Some ''ACEPTADO'', Estado_Descripcion = Some ''ACEPTADO (1)'',
      Codigo_Respuesta = Some ''1'', Mensaje = None,
      Fecha_Primera_Consulta = Some 10, Fecha_Ultima_Consulta = Some 10,
      Fecha_Ultimo_Cambio = Some 10, Cambio_Estado = Some True\<rparr>"

definition example_reconciliation :: "date reconciliation" where
  "example_reconciliation =
     \<lparr>rc_ahora = 20, rc_row = example_row, rc_estado_txt = Some ''ANULADO'',
      rc_estado_desc = Some ''ANULADO (2)'', rc_codigo = Some ''2'', rc_mensaje = None\<rparr>"

section \<open>Request body\<close>

text \<open>The number of decimal digits of a coefficient.\<close>

definition ndigits :: "nat \<Rightarrow> nat" where
  "ndigits n = length (str_nat n)"

text \<open>
  \<^verbatim>\<open>_rescale(-2, ROUND_HALF_UP)\<close> on the coefficient: padded with zeros when the exponent is
  at least \<open>- 2\<close>; otherwise the last \<open>k = - 2 - dexp\<close> digits are dropped and the rest is
  incremented when the first dropped digit is 5 or more.
\<close>

definition rescale_half_up :: "decimal \<Rightarrow> nat" where
  "rescale_half_up d =
     (if - 2 \<le> dexp d then dcoeff d * 10 ^ nat (dexp d + 2)
      else let k = nat (- 2 - dexp d)
           in dcoeff d div 10 ^ k + (if 10 ^ k \<le> 2 * (dcoeff d mod 10 ^ k) then 1 else 0))"

text \<open>
  \<^verbatim>\<open>d.quantize(Decimal("0.00"), rounding=ROUND_HALF_UP)\<close> in the default context, whose
  precision is 28 digits: \<^verbatim>\<open>InvalidOperation\<close> is raised when the result would need more
  digits than the precision, before or after rounding. A zero keeps its sign.
\<close>

definition quantize_cents :: "decimal \<Rightarrow> exn + decimal" where
  "quantize_cents d =
     (if dcoeff d = 0 then Inr \<lparr>dneg = dneg d, dcoeff = 0, dexp = - 2\<rparr>
      else if 28 < dexp d + int (ndigits (dcoeff d)) - 1 + 2 + 1
        then Inl (Exn InvalidOperation ''quantize result has too many digits for current context'')
      else if 28 < ndigits (rescale_half_up d)
        then Inl (Exn InvalidOperation ''quantize result has too many digits for current context'')
      else Inr \<lparr>dneg = dneg d, dcoeff = rescale_half_up d, dexp = - 2\<rparr>)"

text \<open>
  \<^verbatim>\<open>str(d)\<close> for a decimal with exponent \<open>- 2\<close>: the sign, the digits before the last two
  (or \<^verbatim>\<open>0\<close>), a point, and the last two digits, padded with zeros on the left.
\<close>

definition str_decimal2 :: "decimal \<Rightarrow> string" where
  "str_decimal2 d =
     (let ds = str_nat (dcoeff d); n = length ds
      in (if dneg d then ''-'' else '''') @
         (if n \<le> 2 then ''0.'' @ replicate (2 - n) CHR ''0'' @ ds
          else take (n - 2) ds @ ''.'' @ drop (n - 2) ds))"

record body =
  numRuc :: "string option"
  codComp :: "string option"
  numeroSerie :: "string option"
  numero :: "string option"
  fechaEmision :: "string option"
  monto :: string

text \<open>
  \<^verbatim>\<open>to_body_postman\<close>. The library's date functions are parameters: \<open>strftime\<close> is
  \<^verbatim>\<open>d.strftime("%d/%m/%Y")\<close> and \<open>strptime\<close> is \<^verbatim>\<open>datetime.strptime(s, "%Y-%m-%d")\<close>, which
  raises \<^verbatim>\<open>ValueError\<close> (here \<open>None\<close>) on a text of another form.
\<close>

definition fecha_str_of ::
  "('d \<Rightarrow> string) \<Rightarrow> (string \<Rightarrow> 'd option) \<Rightarrow> 'd fecha \<Rightarrow> exn + string option" where
  "fecha_str_of strftime strptime femi =
     (case femi of
        FechaNull \<Rightarrow> Inr None
      | FechaDate d \<Rightarrow> Inr (Some (strftime d))
      | FechaText s \<Rightarrow>
          (case strptime s of
             None \<Rightarrow> Inl (Exn ValueError ''time data does not match format'')
           | Some d \<Rightarrow> Inr (Some (strftime d))))"

definition monto_of :: "decimal option \<Rightarrow> exn + string" where
  "monto_of tot =
     (case tot of
        None \<Rightarrow> Inr ''0.00''
      | Some t \<Rightarrow> (case quantize_cents t of Inl e \<Rightarrow> Inl e | Inr q \<Rightarrow> Inr (str_decimal2 q)))"

definition to_body_postman ::
  "('d \<Rightarrow> string) \<Rightarrow> (string \<Rightarrow> 'd option) \<Rightarrow> 'd row \<Rightarrow> exn + body" where
  "to_body_postman strftime strptime r =
     (case fecha_str_of strftime strptime (FechaEmision r) of
        Inl e \<Rightarrow> Inl e
      | Inr fecha_str \<Rightarrow>
          (case monto_of (ImporteTotal r) of
             Inl e \<Rightarrow> Inl e
           | Inr m \<Rightarrow>
               Inr \<lparr>numRuc = RUC_Emisor r, codComp = TipoDocumento r, numeroSerie = Serie r,
                    numero = Numero r, fechaEmision = fecha_str, monto = m\<rparr>))"

subsection \<open>Round-half-up as the specification words it\<close>

text \<open>The magnitude of a decimal, as a rational number.\<close>

definition dec_abs :: "decimal \<Rightarrow> rat" where
  "dec_abs d =
     (if 0 \<le> dexp d then of_nat (dcoeff d) * 10 ^ nat (dexp d)
      else of_nat (dcoeff d) / 10 ^ nat (- dexp d))"

text \<open>
  The number of cents nearest to a non-negative amount, a tie going up; and the
  fixed two-decimal text of a sign and a number of cents.
\<close>

definition round_half_up_cents :: "rat \<Rightarrow> nat" where
  "round_half_up_cents x = nat \<lfloor>x * 100 + 1 / 2\<rfloor>"

definition money_text :: "bool \<Rightarrow> nat \<Rightarrow> string" where
  "money_text neg cents =
     (if neg then ''-'' else '''') @ str_nat (cents div 100) @ ''.'' @
     [digit_char (cents div 10 mod 10), digit_char (cents mod 10)]"

text \<open>Dates as (year, month, day), for the scenario: four-digit years, two-digit month and day.\<close>

definition pad2 :: "nat \<Rightarrow> string" where
  "pad2 n = [digit_char (n div 10 mod 10), digit_char (n mod 10)]"

definition dmy_text :: "date \<Rightarrow> string" where
  "dmy_text d = (case d of (y, m, dd) \<Rightarrow> pad2 dd @ ''/'' @ pad2 m @ ''/'' @ pad2 (y div 100) @ pad2 y)"

definition no_strptime :: "string \<Rightarrow> date option" where
  "no_strptime s = None"

section \<open>Final sync\<close>

text \<open>
  A row of \<^verbatim>\<open>DATA.FACTURA_COMPRA_BACKUS_CABECERA\<close>: the invoice id, the columns that belong to
  the business (one field stands for them) and the eight \<^verbatim>\<open>SUNAT\<close> columns.
\<close>

record final_row =
  f_IdFactura :: int
  f_negocio :: string
  Estado_SUNAT_ULT :: "string option"
  Estado_SUNAT_Descripcion :: "string option"
  SUNAT_Codigo_Respuesta :: "string option"
  SUNAT_Mensaje :: "string option"
  SUNAT_Cambio_Estado :: "bool option"
  SUNAT_Fecha_Primera :: "datetime option"
  SUNAT_Fecha_Ultima :: "datetime option"
  SUNAT_Fecha_Cambio :: "datetime option"

text \<open>
  The three shapes of comparison in the \<^verbatim>\<open>WHERE\<close> clause of the diagnostic query.
  \<^verbatim>\<open>ISNULL(a,'') <> ISNULL(b,'')\<close> on texts (texts compared as they are stored); the three
  lines on a pair of timestamps; and \<^verbatim>\<open>a <> b\<close>, which selects nothing when a side is NULL.
\<close>

definition text_differs :: "string option \<Rightarrow> string option \<Rightarrow> bool" where
  "text_differs a b = (or_empty a \<noteq> or_empty b)"

definition fecha_differs :: "datetime option \<Rightarrow> datetime option \<Rightarrow> bool" where
  "fecha_differs a b =
     ((a = None \<and> b \<noteq> None) \<or> (a \<noteq> None \<and> b = None)
      \<or> (a \<noteq> None \<and> b \<noteq> None \<and> a \<noteq> b))"

definition sql_neq :: "datetime option \<Rightarrow> datetime option \<Rightarrow> bool" where
  "sql_neq a b = (case (a, b) of (Some x, Some y) \<Rightarrow> x \<noteq> y | _ \<Rightarrow> False)"

text \<open>
  \<^verbatim>\<open>ISNULL(CAST(d.SUNAT_Cambio_Estado AS int),-1) <> ISNULL(s.Cambio_Estado,0)\<close>
\<close>

definition cambio_differs :: "bool option \<Rightarrow> bool option \<Rightarrow> bool" where
  "cambio_differs a b =
     ((case a of None \<Rightarrow> - 1 | Some x \<Rightarrow> (if x then 1 else 0 :: int))
        \<noteq> (case b of None \<Rightarrow> 0 | Some y \<Rightarrow> (if y then 1 else 0)))"

text \<open>The \<^verbatim>\<open>WHERE\<close> clause of the diagnostic query, on a joined pair.\<close>

definition differs :: "final_row \<Rightarrow> snapshot_row \<Rightarrow> bool" where
  "differs d s =
     (text_differs (Estado_SUNAT_ULT d) (Estado_Actual s)
      \<or> text_differs (Estado_SUNAT_Descripcion d) (Estado_Descripcion s)
      \<or> cambio_differs (SUNAT_Cambio_Estado d) (Cambio_Estado s)
      \<or> text_differs (SUNAT_Codigo_Respuesta d) (Codigo_Respuesta s)
      \<or> text_differs (SUNAT_Mensaje d) (Mensaje s)
      \<or> fecha_differs (SUNAT_Fecha_Primera d) (Fecha_Primera_Consulta s)
      \<or> fecha_differs (SUNAT_Fecha_Ultima d) (Fecha_Ultima_Consulta s)
      \<or> (Cambio_Estado s = Some True
          \<and> (SUNAT_Fecha_Cambio d = None
               \<or> sql_neq (SUNAT_Fecha_Cambio d) (Fecha_Ultimo_Cambio s))))"

text \<open>The \<^verbatim>\<open>SET\<close> list of the \<^verbatim>\<open>UPDATE\<close>, on a joined pair.\<close>

definition mirror :: "final_row \<Rightarrow> snapshot_row \<Rightarrow> final_row" where
  "mirror d s =
     d\<lparr>Estado_SUNAT_ULT := Estado_Actual s,
       Estado_SUNAT_Descripcion := Estado_Descripcion s,
       SUNAT_Codigo_Respuesta := Codigo_Respuesta s,
       SUNAT_Mensaje := Mensaje s,
       SUNAT_Cambio_Estado := Some (Cambio_Estado s = Some True),
       SUNAT_Fecha_Primera :=
         (case SUNAT_Fecha_Primera d of None \<Rightarrow> Fecha_Primera_Consulta s | Some t \<Rightarrow> Some t),
       SUNAT_Fecha_Ultima := Fecha_Ultima_Consulta s,
       SUNAT_Fecha_Cambio :=
         (if Cambio_Estado s = Some True then Fecha_Ultimo_Cambio s else SUNAT_Fecha_Cambio d)\<rparr>"

text \<open>
  The snapshot row that the join gives to a final row. (The snapshot holds one row for an
  invoice id; were there several, the \<^verbatim>\<open>UPDATE\<close> would use one of them, here the first.)
\<close>

definition joined :: "snapshot_row list \<Rightarrow> final_row \<Rightarrow> snapshot_row option" where
  "joined snapshot d = find (has_id (f_IdFactura d)) snapshot"

definition is_joined :: "snapshot_row list \<Rightarrow> final_row \<Rightarrow> bool" where
  "is_joined snapshot d = (joined snapshot d \<noteq> None)"

text \<open>The \<^verbatim>\<open>UPDATE\<close> on the whole table: every final row that the join matches is rewritten.\<close>

definition sync_rows :: "snapshot_row list \<Rightarrow> final_row list \<Rightarrow> final_row list" where
  "sync_rows snapshot final =
     map (\<lambda>d. case joined snapshot d of None \<Rightarrow> d | Some s \<Rightarrow> mirror d s) final"

text \<open>\<^verbatim>\<open>SELECT COUNT(*) ... JOIN ... WHERE ...\<close>: the joined pairs that differ.\<close>

definition count_to_fix :: "final_row list \<Rightarrow> snapshot_row list \<Rightarrow> nat" where
  "count_to_fix final snapshot =
     length (concat (map (\<lambda>d. filter (\<lambda>s. has_id (f_IdFactura d) s \<and> differs d s) snapshot) final))"

text \<open>
  \<^verbatim>\<open>update_final_from_snapshot\<close>. The result is the final table after the commit, with the two
  numbers that the function logs: \<^verbatim>\<open>to_fix\<close> and \<^verbatim>\<open>affected\<close>. The \<^verbatim>\<open>UPDATE\<close> has no \<^verbatim>\<open>WHERE\<close>
  clause: it rewrites every final row that the join matches and records its id in \<^verbatim>\<open>#upd\<close>,
  whose primary key rejects a repeated id (the statement then fails and, under
  \<^verbatim>\<open>XACT_ABORT\<close>, nothing is changed). \<open>has_description\<close> is \<^verbatim>\<open>cur.description\<close> after the
  batch: whether the driver has put the cursor on the result set of the final \<^verbatim>\<open>SELECT\<close>.
\<close>

definition update_final_from_snapshot ::
  "bool \<Rightarrow> final_row list \<Rightarrow> snapshot_row list \<Rightarrow> exn + (final_row list \<times> nat \<times> nat)" where
  "update_final_from_snapshot has_description final snapshot =
     (let to_fix = count_to_fix final snapshot;
          upd = map f_IdFactura (filter (is_joined snapshot) final)
      in if \<not> distinct upd
         then Inl (Exn DatabaseError ''Violation of PRIMARY KEY constraint'')
         else Inr (sync_rows snapshot final, to_fix,
                   if has_description then length upd else 0))"

subsection \<open>The scenario, continued\<close>

text \<open>
  The final row of invoice 100 before any sync, and the same row once it mirrors
  \<open>example_snapshot\<close>.
\<close>

definition example_final_blank :: final_row where
  "example_final_blank =
     \<lparr>f_IdFactura = 100, f_negocio = ''F001-123'', Estado_SUNAT_ULT = None,
      Estado_SUNAT_Descripcion = None, SUNAT_Codigo_Respuesta = None, SUNAT_Mensaje = None,
      SUNAT_Cambio_Estado = None, SUNAT_Fecha_Primera = None, SUNAT_Fecha_Ultima = None,
      SUNAT_Fecha_Cambio = None\<rparr>"

definition example_final_synced :: final_row where
  "example_final_synced =
     \<lparr>f_IdFactura = 100, f_negocio = ''F001-123'', Estado_SUNAT_ULT = Some ''ACEPTADO'',
      Estado_SUNAT_Descripcion = Some ''ACEPTADO (1)'', SUNAT_Codigo_Respuesta = Some ''1'',
      SUNAT_Mensaje = None, SUNAT_Cambio_Estado = Some True, SUNAT_Fecha_Primera = Some 10,
      SUNAT_Fecha_Ultima = Some 10, SUNAT_Fecha_Cambio = Some 10\<rparr>"

section \<open>Validation call\<close>

text \<open>
  What the program sees of an HTTP response: the status code, the outcome of \<^verbatim>\<open>r.json()\<close>
  (the decoded body, or the exception it raises: a \<^verbatim>\<open>RequestException\<close> in the current
  versions of the library, a \<^verbatim>\<open>ValueError\<close> in older ones) and the body as text.
\<close>

record response =
  status_code :: int
  json_result :: "exn + json"
  text_of :: string

text \<open>\<^verbatim>\<open>safe_json\<close>: the decoded body, or the first 1000 characters of the text under \<^verbatim>\<open>raw\<close>.\<close>

definition safe_json :: "response \<Rightarrow> json" where
  "safe_json resp =
     (case json_result resp of
        Inr js \<Rightarrow> js
      | Inl e \<Rightarrow> JObj [(''raw'', JStr (take 1000 (text_of resp)))])"

text \<open>
  \<^verbatim>\<open>{"http": code, **d}\<close>: the entries of \<^verbatim>\<open>d\<close> are stored one after the other into the
  dict that holds \<^verbatim>\<open>http\<close>; a key that is present gets the new value. Unpacking a value that
  is not a dict raises \<^verbatim>\<open>TypeError\<close>.
\<close>

definition dict_merge :: "(string \<times> json) list \<Rightarrow> (string \<times> json) list \<Rightarrow> (string \<times> json) list" where
  "dict_merge base d = foldl (\<lambda>acc kv. AList.update (fst kv) (snd kv) acc) base d"

definition http_payload :: "int \<Rightarrow> json \<Rightarrow> exn + json" where
  "http_payload code js =
     (case js of
        JObj d \<Rightarrow> Inr (JObj (dict_merge [(''http'', JInt code)] d))
      | _ \<Rightarrow> Inl (Exn TypeError (quoted (type_name js) @ '' object is not a mapping'')))"

text \<open>
  One pass through the body of the loop of \<^verbatim>\<open>call_sunat\<close>, given what \<^verbatim>\<open>requests.post\<close> did:
  the function returns or raises (\<open>Done\<close>), or the \<^verbatim>\<open>except\<close> clause catches a
  \<^verbatim>\<open>RequestException\<close> and the loop goes on (\<open>Retry\<close>).
\<close>

datatype step = Done "exn + bool \<times> json" | Retry exn

definition caught :: "exn \<Rightarrow> step" where
  "caught e = (if exn_kind e = RequestException then Retry e else Done (Inl e))"

definition attempt :: "exn + response \<Rightarrow> step" where
  "attempt posted =
     (case posted of
        Inl e \<Rightarrow> caught e
      | Inr r \<Rightarrow>
          if status_code r = 200 then
            (case json_result r of Inl e \<Rightarrow> caught e | Inr js \<Rightarrow> Done (Inr (True, js)))
          else
            (case http_payload (status_code r) (safe_json r) of
               Inl e \<Rightarrow> caught e
             | Inr p \<Rightarrow> Done (Inr (False, p))))"

text \<open>
  The loop \<^verbatim>\<open>for i in range(RETRY_MAX)\<close>, from index \<open>i\<close>. \<open>post i\<close> is what the \<open>i\<close>-th
  call of \<^verbatim>\<open>requests.post\<close> does. The result is what \<^verbatim>\<open>call_sunat\<close> returns or raises, the
  list of the \<^verbatim>\<open>time.sleep\<close> arguments in order, and the number of calls of \<^verbatim>\<open>requests.post\<close>.
\<close>

function call_sunat_from ::
  "(nat \<Rightarrow> exn + response) \<Rightarrow> nat \<Rightarrow> nat \<Rightarrow> exn option \<Rightarrow> nat list
   \<Rightarrow> (exn + bool \<times> json) \<times> nat list \<times> nat" where
  "call_sunat_from post n i last_exc slept =
     (if i < n then
        (case attempt (post i) of
           Done v \<Rightarrow> (v, slept, i + 1)
         | Retry e \<Rightarrow> call_sunat_from post n (i + 1) (Some e) (slept @ [2 * (i + 1)]))
      else
        (Inr (False, JObj [(''error'',
                JStr (case last_exc of None \<Rightarrow> ''unknown'' | Some e \<Rightarrow> exn_text e))]),
         slept, i))"
  by pat_completeness auto
termination
  by (relation "measure (\<lambda>(post, n, i, last_exc, slept). n - i)") auto

declare call_sunat_from.simps [simp del]

definition call_sunat ::
  "int \<Rightarrow> (nat \<Rightarrow> exn + response) \<Rightarrow> (exn + bool \<times> json) \<times> nat list \<times> nat" where
  "call_sunat retry_max post = call_sunat_from post (nat retry_max) 0 None []"

text \<open>
  The \<open>k\<close>-th call is retried with exception \<open>e\<close>: \<^verbatim>\<open>requests.post\<close> raised the
  \<^verbatim>\<open>RequestException\<close> \<open>e\<close>, or it returned status 200 and decoding the body raised it.
\<close>

definition retried :: "(nat \<Rightarrow> exn + response) \<Rightarrow> nat \<Rightarrow> exn \<Rightarrow> bool" where
  "retried post k e =
     (exn_kind e = RequestException
      \<and> (case post k of
           Inl e' \<Rightarrow> e' = e
         | Inr r \<Rightarrow> status_code r = 200 \<and> json_result r = Inl e))"

text \<open>The backoff after the failed attempts \<open>0, \<dots>, i - 1\<close>: 2, 4, \<dots>, \<open>2 * i\<close> seconds.\<close>

definition backoff :: "nat \<Rightarrow> nat list" where
  "backoff i = map (\<lambda>k. 2 * (k + 1)) [0..<i]"

subsection \<open>Example servers\<close>

definition timeout_exn :: exn where
  "timeout_exn = Exn RequestException ''Read timed out.''"

definition decode_exn :: "exn_class \<Rightarrow> exn" where
  "decode_exn c = Exn c ''Expecting value: line 1 column 1 (char 0)''"

text \<open>Every call answers 200 with a body that is not JSON; the decoder raises class \<open>c\<close>.\<close>

definition post_ok_garbage :: "exn_class \<Rightarrow> nat \<Rightarrow> exn + response" where
  "post_ok_garbage c i =
     Inr \<lparr>status_code = 200, json_result = Inl (decode_exn c), text_of = ''<html>''\<rparr>"

text \<open>Every call answers 500 with the JSON body \<^verbatim>\<open>[]\<close>.\<close>

definition post_500_list :: "nat \<Rightarrow> exn + response" where
  "post_500_list i = Inr \<lparr>status_code = 500, json_result = Inr (JArr []), text_of = ''[]''\<rparr>"

text \<open>The first two calls time out, the third answers 200 with \<^verbatim>\<open>{"data": {"estadoCp": 3}}\<close>.\<close>

definition estado3 :: json where
  "estado3 = JObj [(''data'', JObj [(''estadoCp'', JInt 3)])]"

definition post_third_time :: "nat \<Rightarrow> exn + response" where
  "post_third_time i =
     (if i < 2 then Inl timeout_exn
      else Inr \<lparr>status_code = 200, json_result = Inr estado3,
                text_of = ''{...}''\<rparr>)"

text \<open>Every call times out.\<close>

definition post_timeout :: "nat \<Rightarrow> exn + response" where
  "post_timeout i = Inl timeout_exn"

text \<open>Every call answers 404 with a body that is not JSON.\<close>

definition post_404_html :: "nat \<Rightarrow> exn + response" where
  "post_404_html i =
     Inr \<lparr>status_code = 404, json_result = Inl (decode_exn RequestException),
          text_of = ''<html>''\<rparr>"

section \<open>Token cache\<close>

text \<open>
  The module state: \<^verbatim>\<open>_cached_token\<close> (any decoded JSON value, \<^verbatim>\<open>None\<close> at import) and
  \<^verbatim>\<open>_token_exp\<close>. A \<open>datetime\<close> counts microseconds.
\<close>

record token_state =
  cached_token :: json
  token_exp :: datetime

text \<open>The configuration read from the environment at import.\<close>

record config =
  CLIENT_ID :: "string option"
  CLIENT_SECRET :: "string option"

text \<open>
  What the outside does during one call of \<^verbatim>\<open>get_token\<close>: the outcome of
  \<^verbatim>\<open>_token_try(url, scope, auth_mode, cid, sec)\<close>, the text \<^verbatim>\<open>repr(e)\<close> of an exception, and the
  clock readings at the cache check and at the renewal.
\<close>

record token_env =
  token_try :: "string \<Rightarrow> string option \<Rightarrow> string \<Rightarrow> exn + response"
  repr_exn :: "exn \<Rightarrow> string"
  now_check :: datetime
  now_renew :: datetime

definition endpoints :: "string \<Rightarrow> string list" where
  "endpoints cid =
     [''https://api-seguridad.sunat.gob.pe/v1/clientessol/'' @ cid @ ''/oauth2/token/'',
      ''https://api-seguridad.sunat.gob.pe/v1/clientesextranet/'' @ cid @ ''/oauth2/token/'']"

definition scopes :: "string option list" where
  "scopes =
     [Some ''https://api.sunat.gob.pe/v1/contribuyente/contribuyentes'',
      Some ''https://api.sunat.gob.pe/v1/contribuyente/*'',
      None]"

definition auth_modes :: "string list" where
  "auth_modes = [''basic'', ''body'']"

text \<open>
  The search space in the order of the three nested loops: endpoint, then credential
  transmission mode, then scope.
\<close>

definition search_space :: "string \<Rightarrow> (string \<times> string \<times> string option) list" where
  "search_space cid =
     concat (map (\<lambda>ep. concat (map (\<lambda>auth_mode. map (\<lambda>sc. (ep, auth_mode, sc)) scopes)
                                   auth_modes))
                 (endpoints cid))"

definition combo_label :: "string \<times> string \<times> string option \<Rightarrow> string" where
  "combo_label c =
     (case c of (ep, auth_mode, sc) \<Rightarrow>
        ''['' @ ep @ '' | auth='' @ auth_mode @ '' | scope=''
        @ (case sc of None \<Rightarrow> ''None'' | Some s \<Rightarrow> s) @ '']'')"

definition http_error_text :: "string \<times> string \<times> string option \<Rightarrow> response \<Rightarrow> string" where
  "http_error_text c r =
     combo_label c @ '' -> HTTP '' @ str_int (status_code r) @ '' - '' @ take 800 (text_of r)"

definition exception_error_text ::
  "token_env \<Rightarrow> string \<times> string \<times> string option \<Rightarrow> exn \<Rightarrow> string" where
  "exception_error_text env c e =
     combo_label c @ '' -> excepci'' @ [CHR 0xF3] @ ''n: '' @ repr_exn env e"

text \<open>
  \<^verbatim>\<open>timedelta(seconds=n)\<close> exists for at most 999999999 days either way, and a \<^verbatim>\<open>datetime\<close>
  lies between the years 1 and 9999; beyond that Python raises \<^verbatim>\<open>OverflowError\<close>.
\<close>

definition timedelta_ok :: "int \<Rightarrow> bool" where
  "timedelta_ok n = (- 86399999913600 \<le> n \<and> n \<le> 86399999999999)"

definition datetime_ok :: "datetime \<Rightarrow> bool" where
  "datetime_ok t = (- 62135596800000000 \<le> t \<and> t \<le> 253402300799999999)"

text \<open>
  \<^verbatim>\<open>timedelta(seconds=n)\<close>, in microseconds: the number of days must fit a C int and then
  the range of a \<^verbatim>\<open>timedelta\<close>.
\<close>

definition timedelta :: "int \<Rightarrow> exn + int" where
  "timedelta n =
     (let days = n div 86400
      in if days < - 2147483648 \<or> 2147483647 < days
         then Inl (Exn OverflowError ''Python int too large to convert to C int'')
         else if days < - 999999999 \<or> 999999999 < days
         then Inl (Exn OverflowError
                     (''days='' @ str_int days @ ''; must have magnitude <= 999999999''))
         else Inr (1000000 * n))"

text \<open>\<^verbatim>\<open>t + d\<close> for a \<^verbatim>\<open>datetime\<close> and a \<^verbatim>\<open>timedelta\<close>.\<close>

definition datetime_add :: "datetime \<Rightarrow> int \<Rightarrow> exn + datetime" where
  "datetime_add t d =
     (if datetime_ok (t + d) then Inr (t + d)
      else Inl (Exn OverflowError ''date value out of range''))"

text \<open>\<^verbatim>\<open>js["access_token"]\<close> on a value that is not a dict.\<close>

definition subscript_error :: "json \<Rightarrow> exn" where
  "subscript_error js =
     Exn TypeError
       (case js of
          JStr s \<Rightarrow> ''string indices must be integers, not '' @ quoted ''str''
        | JArr xs \<Rightarrow> ''list indices must be integers or slices, not str''
        | _ \<Rightarrow> quoted (type_name js) @ '' object is not subscriptable'')"

text \<open>
  The lines that run after a response with status 200 has been decoded, in their order: read
  \<^verbatim>\<open>access_token\<close>, store it, convert \<^verbatim>\<open>expires_in\<close> (0 when missing), compute and store
  the expiry, return. An exception leaves the state as the lines before it made it.
\<close>

definition renew :: "token_env \<Rightarrow> token_state \<Rightarrow> json \<Rightarrow> (exn + json \<times> datetime) \<times> token_state" where
  "renew env st js =
     (case js of
        JObj kvs \<Rightarrow>
          (case map_of kvs ''access_token'' of
             None \<Rightarrow> (Inl (Exn KeyError (quoted ''access_token'')), st)
           | Some tok \<Rightarrow>
               (let st1 = st\<lparr>cached_token := tok\<rparr>
                in case py_int (case map_of kvs ''expires_in'' of None \<Rightarrow> JInt 0 | Some v \<Rightarrow> v) of
                     Inl e \<Rightarrow> (Inl e, st1)
                   | Inr n \<Rightarrow>
                       (case timedelta n of
                          Inl e \<Rightarrow> (Inl e, st1)
                        | Inr d \<Rightarrow>
                            (case datetime_add (now_renew env) d of
                               Inl e \<Rightarrow> (Inl e, st1)
                             | Inr t \<Rightarrow>
                                 (let st2 = st1\<lparr>token_exp := t\<rparr>
                                  in (Inr (cached_token st2, token_exp st2), st2))))))
      | _ \<Rightarrow> (Inl (subscript_error js), st))"

text \<open>
  One combination of the search: the body of the innermost loop. It ends the call
  (\<open>TokenDone\<close>: a return or an exception that is not caught) or records an error text and
  lets the search go on (\<open>TokenFail\<close>).
\<close>

datatype token_step = TokenDone "exn + json \<times> datetime" token_state | TokenFail string

definition token_caught ::
  "token_env \<Rightarrow> token_state \<Rightarrow> string \<times> string \<times> string option \<Rightarrow> exn \<Rightarrow> token_step" where
  "token_caught env st c e =
     (if exn_kind e = RequestException then TokenFail (exception_error_text env c e)
      else TokenDone (Inl e) st)"

definition token_attempt ::
  "token_env \<Rightarrow> token_state \<Rightarrow> string \<times> string \<times> string option \<Rightarrow> token_step" where
  "token_attempt env st c =
     (case c of (ep, auth_mode, sc) \<Rightarrow>
        (case token_try env ep sc auth_mode of
           Inl e \<Rightarrow> token_caught env st c e
         | Inr r \<Rightarrow>
             if status_code r = 200 then
               (case json_result r of
                  Inl e \<Rightarrow> token_caught env st c e
                | Inr js \<Rightarrow>
                    (case renew env st js of
                       (Inl e, st') \<Rightarrow> token_caught env st' c e
                     | (Inr v, st') \<Rightarrow> TokenDone (Inr v) st'))
             else
               (case py_str_int (status_code r) of
                  Inl e \<Rightarrow> token_caught env st c e
                | Inr code \<Rightarrow>
                    TokenFail (combo_label c @ '' -> HTTP '' @ code @ '' - ''
                               @ take 800 (text_of r)))))"

text \<open>
  The three nested loops over what is left of the search space. The result is what
  \<^verbatim>\<open>get_token\<close> returns or raises, the state, and the combinations tried, in order.
\<close>

fun token_search ::
  "token_env \<Rightarrow> token_state \<Rightarrow> (string \<times> string \<times> string option) list \<Rightarrow> string option
   \<Rightarrow> (string \<times> string \<times> string option) list
   \<Rightarrow> (exn + json \<times> datetime) \<times> token_state \<times> (string \<times> string \<times> string option) list" where
  "token_search env st [] last_err tried =
     (Inl (Exn RuntimeError
            (''No se pudo obtener token SUNAT. '' @ [CHR 0xDA] @ ''ltimo error: ''
             @ (case last_err of None \<Rightarrow> ''None'' | Some s \<Rightarrow> s))),
      st, tried)"
| "token_search env st (c # cs) last_err tried =
     (case token_attempt env st c of
        TokenDone v st' \<Rightarrow> (v, st', tried @ [c])
      | TokenFail err \<Rightarrow> token_search env st cs (Some err) (tried @ [c]))"

text \<open>\<^verbatim>\<open>(CLIENT_ID or "").strip()\<close>\<close>

definition stripped :: "string option \<Rightarrow> string" where
  "stripped v = strip (or_empty v)"

definition get_token ::
  "config \<Rightarrow> token_env \<Rightarrow> token_state
   \<Rightarrow> (exn + json \<times> datetime) \<times> token_state \<times> (string \<times> string \<times> string option) list" where
  "get_token cfg env st =
     (let cid = stripped (CLIENT_ID cfg); sec = stripped (CLIENT_SECRET cfg)
      in if cid = [] \<or> sec = []
         then (Inl (Exn RuntimeError ''Faltan SUNAT_CLIENT_ID o SUNAT_CLIENT_SECRET en el .env''),
               st, [])
         else if truthy (cached_token st) \<and> 60 * 1000000 < token_exp st - now_check env
         then (Inr (cached_token st, token_exp st), st, [])
         else token_search env st (search_space cid) None [])"

text \<open>
  A combination fails: the request raises a \<^verbatim>\<open>RequestException\<close>, or answers a status other
  than 200 (one that has a text), or answers 200 with a body whose decoding raises a
  \<^verbatim>\<open>RequestException\<close>. The text is what \<^verbatim>\<open>last_err\<close> becomes.
\<close>

definition combo_fails ::
  "token_env \<Rightarrow> string \<times> string \<times> string option \<Rightarrow> string \<Rightarrow> bool" where
  "combo_fails env c err =
     (case c of (ep, auth_mode, sc) \<Rightarrow>
        (case token_try env ep sc auth_mode of
           Inl e \<Rightarrow> exn_kind e = RequestException \<and> err = exception_error_text env c e
         | Inr r \<Rightarrow>
             if status_code r = 200 then
               (case json_result r of
                  Inl e \<Rightarrow> exn_kind e = RequestException \<and> err = exception_error_text env c e
                | Inr js \<Rightarrow> False)
             else \<not> long_int (status_code r) \<and> err = http_error_text c r))"

text \<open>A combination answers: status 200 with a body that decodes to \<open>js\<close>.\<close>

definition combo_answers ::
  "token_env \<Rightarrow> string \<times> string \<times> string option \<Rightarrow> json \<Rightarrow> bool" where
  "combo_answers env c js =
     (case c of (ep, auth_mode, sc) \<Rightarrow>
        (case token_try env ep sc auth_mode of
           Inl e \<Rightarrow> False
         | Inr r \<Rightarrow> status_code r = 200 \<and> json_result r = Inr js))"

text \<open>
  A combination raises: the request, or the decoding of a body with status 200, raises an
  exception that is not a \<^verbatim>\<open>RequestException\<close>, or the status is not 200 and has no text.
\<close>

definition combo_raises ::
  "token_env \<Rightarrow> string \<times> string \<times> string option \<Rightarrow> exn \<Rightarrow> bool" where
  "combo_raises env c e =
     (case c of (ep, auth_mode, sc) \<Rightarrow>
        (case token_try env ep sc auth_mode of
           Inl e' \<Rightarrow> exn_kind e' \<noteq> RequestException \<and> e = e'
         | Inr r \<Rightarrow>
             if status_code r = 200 then
               (case json_result r of
                  Inl e' \<Rightarrow> exn_kind e' \<noteq> RequestException \<and> e = e'
                | Inr js \<Rightarrow> False)
             else long_int (status_code r) \<and> e = limit_error))"

text \<open>
  A combination grants the token \<open>tok\<close> for \<open>n\<close> seconds: it answers 200, the body decodes
  to a dict with \<^verbatim>\<open>access_token\<close>, and \<^verbatim>\<open>expires_in\<close> (0 when missing) converts to the int
  \<open>n\<close>, within the range of the clock.
\<close>

definition combo_grants ::
  "token_env \<Rightarrow> string \<times> string \<times> string option \<Rightarrow> json \<Rightarrow> int \<Rightarrow> bool" where
  "combo_grants env c tok n =
     (case c of (ep, auth_mode, sc) \<Rightarrow>
        (case token_try env ep sc auth_mode of
           Inl e \<Rightarrow> False
         | Inr r \<Rightarrow>
             status_code r = 200
             \<and> (case json_result r of
                  Inr (JObj kvs) \<Rightarrow>
                    map_of kvs ''access_token'' = Some tok
                    \<and> py_int (case map_of kvs ''expires_in'' of None \<Rightarrow> JInt 0 | Some v \<Rightarrow> v)
                        = Inr n
                    \<and> timedelta_ok n \<and> datetime_ok (now_renew env + 1000000 * n)
                | _ \<Rightarrow> False)))"

definition creds_ok :: "config \<Rightarrow> bool" where
  "creds_ok cfg = (stripped (CLIENT_ID cfg) \<noteq> [] \<and> stripped (CLIENT_SECRET cfg) \<noteq> [])"

subsection \<open>Example token servers\<close>

definition example_config :: config where
  "example_config = \<lparr>CLIENT_ID = Some ''abc'', CLIENT_SECRET = Some ''s3cret''\<rparr>"

definition no_secret_config :: config where
  "no_secret_config = \<lparr>CLIENT_ID = Some ''abc'', CLIENT_SECRET = None\<rparr>"

definition class_repr :: "exn \<Rightarrow> string" where
  "class_repr e = ''RequestException('' @ exn_text e @ '')''"

text \<open>Every request is refused with status 401.\<close>

definition refusing_env :: token_env where
  "refusing_env =
     \<lparr>token_try = (\<lambda>url sc auth_mode.
         Inr \<lparr>status_code = 401, json_result = Inr (JObj []), text_of = ''denied''\<rparr>),
      repr_exn = class_repr, now_check = 1000, now_renew = 2000\<rparr>"

text \<open>
  Requests with the credentials in the header are refused; the first request with the
  credentials in the body is granted a token for 3600 seconds.
\<close>

definition granting_env :: token_env where
  "granting_env =
     \<lparr>token_try = (\<lambda>url sc auth_mode.
         if auth_mode = ''body''
         then Inr \<lparr>status_code = 200,
                   json_result = Inr (JObj [(''access_token'', JStr ''tok''),
                                            (''expires_in'', JInt 3600)]),
                   text_of = ''{...}''\<rparr>
         else Inr \<lparr>status_code = 401, json_result = Inr (JObj []), text_of = ''denied''\<rparr>),
      repr_exn = class_repr, now_check = 1000, now_renew = 2000\<rparr>"

text \<open>Every request is answered with status 200 and the body \<^verbatim>\<open>{}\<close>.\<close>

definition keyless_env :: token_env where
  "keyless_env =
     \<lparr>token_try = (\<lambda>url sc auth_mode.
         Inr \<lparr>status_code = 200, json_result = Inr (JObj []), text_of = ''{}''\<rparr>),
      repr_exn = class_repr, now_check = 1000, now_renew = 2000\<rparr>"

text \<open>Every request is answered with status 200 and a token whose lifetime is not a number.\<close>

definition vague_env :: token_env where
  "vague_env =
     \<lparr>token_try = (\<lambda>url sc auth_mode.
         Inr \<lparr>status_code = 200,
              json_result = Inr (JObj [(''access_token'', JStr ''tok''),
                                       (''expires_in'', JStr ''soon'')]),
              text_of = ''{...}''\<rparr>),
      repr_exn = class_repr, now_check = 1000, now_renew = 2000\<rparr>"

text \<open>Every request raises an exception that is not a \<^verbatim>\<open>RequestException\<close>.\<close>

definition crashing_env :: token_env where
  "crashing_env =
     \<lparr>token_try = (\<lambda>url sc auth_mode. Inl (Exn OtherException ''out of memory'')),
      repr_exn = class_repr, now_check = 1000, now_renew = 2000\<rparr>"

definition initial_token_state :: token_state where
  "initial_token_state = \<lparr>cached_token = JNull, token_exp = 0\<rparr>"

definition fresh_token_state :: token_state where
  "fresh_token_state = \<lparr>cached_token = JStr ''tok'', token_exp = 3600002000\<rparr>"

text \<open>
  The states of the cache that the program can be in: the state at import, and the state after
  any call of \<^verbatim>\<open>get_token\<close> from such a state, whatever the outside does.
\<close>

inductive reachable :: "config \<Rightarrow> token_state \<Rightarrow> bool" for cfg :: config where
  at_import: "reachable cfg \<lparr>cached_token = JNull, token_exp = t0\<rparr>"
| after_call: "reachable cfg st \<Longrightarrow> get_token cfg env st = (v, st', tried) \<Longrightarrow> reachable cfg st'"

text \<open>The cache holds a token that is still valid for more than the 60-second margin.\<close>

definition cache_valid :: "token_env \<Rightarrow> token_state \<Rightarrow> bool" where
  "cache_valid env st = (truthy (cached_token st) \<and> 60 * 1000000 < token_exp st - now_check env)"

definition exhausted_text :: "string \<Rightarrow> string" where
  "exhausted_text err = ''No se pudo obtener token SUNAT. '' @ [CHR 0xDA] @ ''ltimo error: '' @ err"

section \<open>Queue, history and the connection\<close>

text \<open>
  A row of \<^verbatim>\<open>INH.API_SUNAT_QUEUE\<close>: the nine columns that \<^verbatim>\<open>fetch_batch\<close> returns, and the
  columns of the queue itself.
\<close>

record 'd queue_row =
  q_row :: "'d row"
  Status :: string
  Attempts :: int
  LastError :: "string option"
  EnqueuedAt :: datetime

text \<open>A row of \<^verbatim>\<open>INH.SUNAT_VALIDACION\<close>.\<close>

record 'd hist_row =
  h_IdFactura :: int
  h_RUC_Emisor :: "string option"
  h_RUC_Receptor :: "string option"
  h_TipoDocumento :: "string option"
  h_Serie :: "string option"
  h_Numero :: "string option"
  h_FechaEmision :: "'d fecha"
  h_ImporteTotal :: "decimal option"
  h_Estado_SUNAT :: "string option"
  h_Codigo_Respuesta :: "string option"
  h_Mensaje :: "string option"
  h_Token_Expira_UTC :: datetime
  h_Raw_JSON :: json

record 'd db =
  T_QUEUE :: "'d queue_row list"
  T_HIST :: "'d hist_row list"
  T_SNAPSHOT :: "snapshot_row list"
  T_FINAL :: "final_row list"

text \<open>
  The connection, with \<^verbatim>\<open>autocommit\<close> off: the tables as of the last commit, and the tables
  as the open transaction sees them.
\<close>

record 'd cnx =
  committed :: "'d db"
  working :: "'d db"

definition commit :: "'d cnx \<Rightarrow> 'd cnx" where
  "commit c = c\<lparr>committed := working c\<rparr>"

definition rollback :: "'d cnx \<Rightarrow> 'd cnx" where
  "rollback c = c\<lparr>working := committed c\<rparr>"

definition has_idq :: "int \<Rightarrow> 'd queue_row \<Rightarrow> bool" where
  "has_idq idq q = (IdQueue (q_row q) = idq)"

text \<open>
  \<^verbatim>\<open>fetch_batch\<close>, on the queue table: the ids of the first \<open>n\<close> queued rows by enqueue time;
  every row with one of these ids becomes \<^verbatim>\<open>processing\<close> with one more attempt, and its nine
  columns are returned. Nothing is committed here.
\<close>

definition fetch_batch :: "nat \<Rightarrow> 'd queue_row list \<Rightarrow> 'd queue_row list \<times> 'd row list" where
  "fetch_batch n q =
     (let ids = map (\<lambda>r. IdQueue (q_row r))
                    (take n (sort_key EnqueuedAt (filter (\<lambda>r. Status r = ''queued'') q)));
          q' = map (\<lambda>r. if IdQueue (q_row r) \<in> set ids
                         then r\<lparr>Status := ''processing'', Attempts := Attempts r + 1\<rparr>
                         else r) q
      in (q', map q_row (filter (\<lambda>r. IdQueue (q_row r) \<in> set ids) q')))"

text \<open>
  What a second connection finds when it claims while this one is where it is. The claim
  reads the committed table, and its \<^verbatim>\<open>READPAST\<close> hint makes it pass over the rows that the
  open transaction of this connection has written, which are locked until that transaction
  ends.
\<close>

definition unlocked :: "'d cnx \<Rightarrow> 'd queue_row list" where
  "unlocked c = filter (\<lambda>x. x \<in> set (T_QUEUE (working c))) (T_QUEUE (committed c))"

definition second_claim :: "nat \<Rightarrow> 'd cnx \<Rightarrow> 'd row list" where
  "second_claim n c = snd (fetch_batch n (unlocked c))"

text \<open>\<^verbatim>\<open>mark_done\<close> and \<^verbatim>\<open>mark_error\<close>, on the queue table; \<open>err\<close> is \<^verbatim>\<open>str(err)\<close>.\<close>

definition mark_done :: "int \<Rightarrow> 'd queue_row list \<Rightarrow> 'd queue_row list" where
  "mark_done idq q =
     map (\<lambda>r. if has_idq idq r then r\<lparr>Status := ''done'', LastError := None\<rparr> else r) q"

definition mark_error :: "int \<Rightarrow> string \<Rightarrow> 'd queue_row list \<Rightarrow> 'd queue_row list" where
  "mark_error idq err q =
     map (\<lambda>r. if has_idq idq r then r\<lparr>Status := ''error'', LastError := Some (take 3900 err)\<rparr>
               else r) q"

section \<open>Batch\<close>

text \<open>
  The statement of an item's write sequence at which the database raises, and the statement
  of the \<^verbatim>\<open>except\<close> clause at which it raises.
\<close>

datatype stage = AtInsertHist | AtUpsertSnapshot | AtMark | AtCommit

datatype handler_stage = AtHandlerRollback | AtHandlerMark | AtHandlerCommit

text \<open>
  What the outside does during one call of \<^verbatim>\<open>process_batch\<close>: the token server, the date
  functions of the library, the validation server for each row, the time at which the call
  for a row completes, the clock at a row's reconciliation, the failures of the database, the
  text functions of the library (\<^verbatim>\<open>json.dumps\<close>, the text of floats and containers), how the
  driver stores a message value in a text column, and the cursor after the final sync.
\<close>

record 'd batch_env =
  be_token :: token_env
  be_strftime :: "'d \<Rightarrow> string"
  be_strptime :: "string \<Rightarrow> 'd option"
  be_post :: "'d row \<Rightarrow> nat \<Rightarrow> exn + response"
  be_done_at :: "'d row \<Rightarrow> nat"
  be_ahora :: "'d row \<Rightarrow> datetime"
  be_fault :: "'d row \<Rightarrow> (stage \<times> exn) option"
  be_handler_fault :: "'d row \<Rightarrow> (handler_stage \<times> exn) option"
  be_json_dumps :: "json \<Rightarrow> string"
  be_items :: "json \<Rightarrow> string"
  be_bind_text :: "json \<Rightarrow> exn + string option"
  be_final_description :: bool

record settings =
  config_of :: config
  WORKER_BATCH :: int
  RETRY_MAX :: int

text \<open>\<^verbatim>\<open>a or b\<close> on decoded JSON values.\<close>

definition py_or :: "json \<Rightarrow> json \<Rightarrow> json" where
  "py_or a b = (if truthy a then a else b)"

text \<open>
  \<^verbatim>\<open>js.get("message") or js.get("mensaje") or js.get("observacion")\<close>; a payload that is not
  a dict has no \<^verbatim>\<open>get\<close>.
\<close>

definition mensaje_of :: "json \<Rightarrow> exn + json" where
  "mensaje_of js =
     (case js of
        JObj kvs \<Rightarrow>
          Inr (py_or (py_or (dict_get kvs ''message'') (dict_get kvs ''mensaje''))
                     (dict_get kvs ''observacion''))
      | _ \<Rightarrow>
          Inl (Exn AttributeError
                 (quoted (type_name js) @ '' object has no attribute '' @ quoted ''get'')))"

definition fault_at :: "'d batch_env \<Rightarrow> 'd row \<Rightarrow> stage \<Rightarrow> exn option" where
  "fault_at env r s =
     (case be_fault env r of
        None \<Rightarrow> None
      | Some (s', e) \<Rightarrow> if s' = s then Some e else None)"

definition handler_fault_at :: "'d batch_env \<Rightarrow> 'd row \<Rightarrow> handler_stage \<Rightarrow> exn option" where
  "handler_fault_at env r s =
     (case be_handler_fault env r of
        None \<Rightarrow> None
      | Some (s', e) \<Rightarrow> if s' = s then Some e else None)"

text \<open>
  \<^verbatim>\<open>json.dumps(js, ensure_ascii=False)\<close> of a decoded JSON value: it writes an int with
  \<^verbatim>\<open>repr\<close>, which is subject to the limit of 4300 digits.
\<close>

definition json_dumps :: "'d batch_env \<Rightarrow> json \<Rightarrow> exn + string" where
  "json_dumps env js = (if exceeds_limit js then Inl limit_error else Inr (be_json_dumps env js))"

text \<open>
  \<^verbatim>\<open>insert_hist\<close>, on the history table: the status of the payload, its message, its text,
  the message as the driver stores it, and the \<^verbatim>\<open>INSERT\<close>; the row appended and the four
  values returned.
\<close>

definition insert_hist ::
  "'d batch_env \<Rightarrow> 'd hist_row list \<Rightarrow> 'd row \<Rightarrow> datetime \<Rightarrow> json
   \<Rightarrow> exn + 'd hist_row list \<times> string option \<times> string option \<times> string option \<times> string option" where
  "insert_hist env h r token_expira_utc js =
     (case map_estado (be_items env) js of
        Inl e \<Rightarrow> Inl e
      | Inr (estado_txt, estado_desc, estado_cp) \<Rightarrow>
          (case mensaje_of js of
             Inl e \<Rightarrow> Inl e
           | Inr m \<Rightarrow>
               (case json_dumps env js of
                  Inl e \<Rightarrow> Inl e
                | Inr raw \<Rightarrow>
                    (case be_bind_text env m of
                       Inl e \<Rightarrow> Inl e
                     | Inr mensaje \<Rightarrow>
                         (case fault_at env r AtInsertHist of
                            Some e \<Rightarrow> Inl e
                          | None \<Rightarrow>
                              Inr (h @ [\<lparr>h_IdFactura = IdFactura r,
                                          h_RUC_Emisor = RUC_Emisor r,
                                          h_RUC_Receptor = RUC_Receptor r,
                                          h_TipoDocumento = TipoDocumento r,
                                          h_Serie = Serie r, h_Numero = Numero r,
                                          h_FechaEmision = FechaEmision r,
                                          h_ImporteTotal = ImporteTotal r,
                                          h_Estado_SUNAT = estado_txt,
                                          h_Codigo_Respuesta = estado_cp, h_Mensaje = mensaje,
                                          h_Token_Expira_UTC = token_expira_utc,
                                          h_Raw_JSON = js\<rparr>],
                                   estado_txt, estado_desc, estado_cp, mensaje))))))"

text \<open>The text that \<^verbatim>\<open>mark_error\<close> makes of a payload.\<close>

definition payload_text :: "'d batch_env \<Rightarrow> json \<Rightarrow> exn + string" where
  "payload_text env js =
     (case js of
        JObj kvs \<Rightarrow>
          (case json_dumps env js of Inl e \<Rightarrow> Inl e | Inr s \<Rightarrow> Inr (take 3900 s))
      | _ \<Rightarrow> py_str (be_items env) js)"

text \<open>\<^verbatim>\<open>(mark_done if ok else mark_error)(cnx, idq, js)\<close>, up to its \<^verbatim>\<open>UPDATE\<close>.\<close>

definition mark_of ::
  "'d batch_env \<Rightarrow> bool \<Rightarrow> int \<Rightarrow> json \<Rightarrow> exn + ('d queue_row list \<Rightarrow> 'd queue_row list)" where
  "mark_of env ok idq js =
     (if ok then Inr (mark_done idq)
      else case payload_text env js of
             Inl e \<Rightarrow> Inl e
           | Inr err \<Rightarrow> Inr (mark_error idq err))"

text \<open>
  The \<^verbatim>\<open>try\<close> block for one row: the result of the call, the history insert, the snapshot
  upsert, the queue mark and the commit, each on the connection as the statement before left
  it. \<open>Inl\<close> carries the exception and the connection at the moment it is raised; \<open>Inr\<close>
  carries the connection after the commit and whether the call had succeeded.
\<close>

definition try_item ::
  "int \<Rightarrow> 'd batch_env \<Rightarrow> datetime \<Rightarrow> 'd cnx \<Rightarrow> 'd row \<Rightarrow> exn \<times> 'd cnx + 'd cnx \<times> bool" where
  "try_item retry_max env token_expira c r =
     (case fst (call_sunat retry_max (be_post env r)) of
        Inl e \<Rightarrow> Inl (e, c)
      | Inr (ok, js) \<Rightarrow>
          (case insert_hist env (T_HIST (working c)) r token_expira js of
             Inl e \<Rightarrow> Inl (e, c)
           | Inr (h, estado_txt, estado_desc, codigo_respuesta, mensaje) \<Rightarrow>
               (let c1 = c\<lparr>working := (working c)\<lparr>T_HIST := h\<rparr>\<rparr>
                in case fault_at env r AtUpsertSnapshot of
                     Some e \<Rightarrow> Inl (e, c1)
                   | None \<Rightarrow>
                       (let c2 = c1\<lparr>working := (working c1)
                                  \<lparr>T_SNAPSHOT := upsert_snapshot (be_ahora env r)
                                     (T_SNAPSHOT (working c1)) r estado_txt estado_desc
                                     codigo_respuesta mensaje\<rparr>\<rparr>
                        in case mark_of env ok (IdQueue r) js of
                             Inl e \<Rightarrow> Inl (e, c2)
                           | Inr mark \<Rightarrow>
                               (case fault_at env r AtMark of
                                  Some e \<Rightarrow> Inl (e, c2)
                                | None \<Rightarrow>
                                    (let c3 = c2\<lparr>working := (working c2)
                                               \<lparr>T_QUEUE := mark (T_QUEUE (working c2))\<rparr>\<rparr>
                                     in case fault_at env r AtCommit of
                                          Some e \<Rightarrow> Inl (e, c3)
                                        | None \<Rightarrow> Inr (commit c3, ok)))))))"

text \<open>
  The \<^verbatim>\<open>except\<close> clause for one row: roll back, mark the row \<^verbatim>\<open>error\<close> with the text of the
  exception, commit. An exception raised here leaves \<^verbatim>\<open>process_batch\<close>.
\<close>

definition handle_item ::
  "'d batch_env \<Rightarrow> 'd cnx \<Rightarrow> 'd row \<Rightarrow> exn \<Rightarrow> exn \<times> 'd cnx + 'd cnx" where
  "handle_item env c r e =
     (case handler_fault_at env r AtHandlerRollback of
        Some e' \<Rightarrow> Inl (e', c)
      | None \<Rightarrow>
          (let c1 = rollback c
           in case handler_fault_at env r AtHandlerMark of
                Some e' \<Rightarrow> Inl (e', c1)
              | None \<Rightarrow>
                  (let c2 = c1\<lparr>working := (working c1)
                             \<lparr>T_QUEUE := mark_error (IdQueue r) (exn_text e) (T_QUEUE (working c1))\<rparr>\<rparr>
                   in case handler_fault_at env r AtHandlerCommit of
                        Some e' \<Rightarrow> Inl (e', c2)
                      | None \<Rightarrow> Inr (commit c2))))"

text \<open>One pass through the body of the \<^verbatim>\<open>as_completed\<close> loop.\<close>

definition process_item ::
  "int \<Rightarrow> 'd batch_env \<Rightarrow> datetime \<Rightarrow> 'd cnx \<Rightarrow> 'd row \<Rightarrow> exn \<times> 'd cnx + 'd cnx \<times> bool" where
  "process_item retry_max env token_expira c r =
     (case try_item retry_max env token_expira c r of
        Inr (c', ok) \<Rightarrow> Inr (c', ok)
      | Inl (e, c') \<Rightarrow>
          (case handle_item env c' r e of
             Inl (e', c'') \<Rightarrow> Inl (e', c'')
           | Inr c'' \<Rightarrow> Inr (c'', False)))"

text \<open>
  The loop over the rows in the order in which their calls complete, with the two counters.
\<close>

fun process_items ::
  "int \<Rightarrow> 'd batch_env \<Rightarrow> datetime \<Rightarrow> 'd cnx \<Rightarrow> 'd row list \<Rightarrow> nat \<Rightarrow> nat
   \<Rightarrow> exn \<times> 'd cnx + 'd cnx \<times> nat \<times> nat" where
  "process_items retry_max env token_expira c [] ok_cnt err_cnt = Inr (c, ok_cnt, err_cnt)"
| "process_items retry_max env token_expira c (r # rs) ok_cnt err_cnt =
     (case process_item retry_max env token_expira c r of
        Inl (e, c') \<Rightarrow> Inl (e, c')
      | Inr (c', ok) \<Rightarrow>
          process_items retry_max env token_expira c' rs
            (ok_cnt + (if ok then 1 else 0)) (err_cnt + (if ok then 0 else 1)))"

text \<open>
  The final sync inside \<^verbatim>\<open>process_batch\<close>: on success the final table is replaced and the
  transaction committed; an exception is logged and swallowed.
\<close>

definition final_sync :: "'d batch_env \<Rightarrow> 'd cnx \<Rightarrow> 'd cnx" where
  "final_sync env c =
     (case update_final_from_snapshot (be_final_description env) (T_FINAL (working c))
             (T_SNAPSHOT (working c)) of
        Inl e \<Rightarrow> c
      | Inr (f, to_fix, affected) \<Rightarrow> commit (c\<lparr>working := (working c)\<lparr>T_FINAL := f\<rparr>\<rparr>))"

text \<open>The first exception that serializing the rows raises, if any.\<close>

fun bodies_error :: "'d batch_env \<Rightarrow> 'd row list \<Rightarrow> exn option" where
  "bodies_error env [] = None"
| "bodies_error env (r # rs) =
     (case to_body_postman (be_strftime env) (be_strptime env) r of
        Inl e \<Rightarrow> Some e
      | Inr b \<Rightarrow> bodies_error env rs)"

text \<open>
  \<^verbatim>\<open>process_batch\<close>: what it returns or raises, with the token cache and the connection as it
  leaves them. The header is made of the text of the token before the rows are claimed.
\<close>

definition process_batch ::
  "settings \<Rightarrow> 'd batch_env \<Rightarrow> token_state \<Rightarrow> 'd cnx
   \<Rightarrow> (exn + nat \<times> nat \<times> nat) \<times> token_state \<times> 'd cnx" where
  "process_batch s env ts c =
     (case get_token (config_of s) (be_token env) ts of
        (Inl e, ts', tried) \<Rightarrow> (Inl e, ts', c)
      | (Inr (token, token_expira), ts', tried) \<Rightarrow>
          (case py_str (be_items env) token of
             Inl e \<Rightarrow> (Inl e, ts', c)
           | Inr bearer \<Rightarrow>
               if WORKER_BATCH s < 0
               then (Inl (Exn DatabaseError ''TOP clause: invalid value''), ts', c)
               else
                 (case fetch_batch (nat (WORKER_BATCH s)) (T_QUEUE (working c)) of
                    (q, rows) \<Rightarrow>
                      (let c1 = c\<lparr>working := (working c)\<lparr>T_QUEUE := q\<rparr>\<rparr>
                       in if rows = [] then (Inr (0, 0, 0), ts', c1)
                          else case bodies_error env rows of
                                 Some e \<Rightarrow> (Inl e, ts', c1)
                               | None \<Rightarrow>
                                   (case process_items (RETRY_MAX s) env token_expira c1
                                           (sort_key (be_done_at env) rows) 0 0 of
                                      Inl (e, c2) \<Rightarrow> (Inl e, ts', c2)
                                    | Inr (c2, ok_cnt, err_cnt) \<Rightarrow>
                                        (Inr (length rows, ok_cnt, err_cnt), ts',
                                         final_sync env c2))))))"

subsection \<open>Outcome of an item\<close>

text \<open>
  The write sequence of a row meets no exception: the database raises at none of its
  statements, the status mapper does not raise, the payload is a dict and has a text, and the
  driver can store its message.
\<close>

definition writes_ok :: "'d batch_env \<Rightarrow> 'd row \<Rightarrow> json \<Rightarrow> bool" where
  "writes_ok env r js =
     (be_fault env r = None
      \<and> (case map_estado (be_items env) js of Inl e \<Rightarrow> False | Inr v \<Rightarrow> True)
      \<and> \<not> exceeds_limit js
      \<and> (case mensaje_of js of
           Inl e \<Rightarrow> False
         | Inr m \<Rightarrow> (case be_bind_text env m of Inl e \<Rightarrow> False | Inr t \<Rightarrow> True)))"

text \<open>The validation call of a row succeeds and its write sequence is committed.\<close>

definition item_done :: "int \<Rightarrow> 'd batch_env \<Rightarrow> 'd row \<Rightarrow> bool" where
  "item_done retry_max env r =
     (case fst (call_sunat retry_max (be_post env r)) of
        Inl e \<Rightarrow> False
      | Inr (ok, js) \<Rightarrow> ok \<and> writes_ok env r js)"

definition final_status :: "int \<Rightarrow> 'd batch_env \<Rightarrow> 'd row \<Rightarrow> string" where
  "final_status retry_max env r = (if item_done retry_max env r then ''done'' else ''error'')"

text \<open>
  Every queue row whose id is the id of one of the rows \<open>rs\<close> has the final status of one of
  them with that id.
\<close>

definition settled :: "int \<Rightarrow> 'd batch_env \<Rightarrow> 'd row set \<Rightarrow> 'd queue_row list \<Rightarrow> bool" where
  "settled retry_max env rs q =
     (\<forall>x\<in>set q. IdQueue (q_row x) \<in> IdQueue ` rs \<longrightarrow>
        (\<exists>r\<in>rs. IdQueue r = IdQueue (q_row x) \<and> Status x = final_status retry_max env r))"

subsection \<open>The scenario of the specification, with a second invoice\<close>

definition second_row :: "date row" where
  "second_row = example_row\<lparr>IdQueue := 2, IdFactura := 101, Numero := Some ''124''\<rparr>"

definition example_queue :: "date queue_row list" where
  "example_queue =
     [\<lparr>q_row = example_row, Status = ''queued'', Attempts = 0, LastError = None,
        EnqueuedAt = 1\<rparr>,
      \<lparr>q_row = second_row, Status = ''queued'', Attempts = 0, LastError = None,
        EnqueuedAt = 2\<rparr>]"

definition example_db :: "date db" where
  "example_db =
     \<lparr>T_QUEUE = example_queue, T_HIST = [], T_SNAPSHOT = [], T_FINAL = [example_final_blank]\<rparr>"

definition example_cnx :: "date cnx" where
  "example_cnx = \<lparr>committed = example_db, working = example_db\<rparr>"

definition example_settings :: settings where
  "example_settings = \<lparr>config_of = example_config, WORKER_BATCH = 300, RETRY_MAX = 3\<rparr>"

text \<open>The driver stores \<^verbatim>\<open>None\<close> and a string, and rejects any other message value.\<close>

definition text_binding :: "json \<Rightarrow> exn + string option" where
  "text_binding m =
     (case m of
        JNull \<Rightarrow> Inr None
      | JStr s \<Rightarrow> Inr (Some s)
      | _ \<Rightarrow> Inl (Exn DatabaseError ''Invalid parameter type''))"

definition post_authorized :: "date row \<Rightarrow> nat \<Rightarrow> exn + response" where
  "post_authorized r i =
     Inr \<lparr>status_code = 200, json_result = Inr estado3, text_of = ''{...}''\<rparr>"

definition post_list_body :: "date row \<Rightarrow> nat \<Rightarrow> exn + response" where
  "post_list_body r i = Inr \<lparr>status_code = 200, json_result = Inr (JArr []), text_of = ''[]''\<rparr>"

definition deadlock :: exn where
  "deadlock = Exn DatabaseError ''Transaction was deadlocked''"

text \<open>
  The validation server answers \<open>post\<close>; the calls complete in the order of the queue ids;
  the database raises as \<open>fault\<close> says; the token is in the cache.
\<close>

definition example_env ::
  "(date row \<Rightarrow> nat \<Rightarrow> exn + response) \<Rightarrow> (date row \<Rightarrow> (stage \<times> exn) option) \<Rightarrow> date batch_env" where
  "example_env post fault =
     \<lparr>be_token = refusing_env, be_strftime = dmy_text, be_strptime = no_strptime,
      be_post = post, be_done_at = (\<lambda>r. nat (IdQueue r)), be_ahora = (\<lambda>r. 10),
      be_fault = fault, be_handler_fault = (\<lambda>r. None), be_json_dumps = (\<lambda>js. ''{...}''),
      be_items = no_items, be_bind_text = text_binding, be_final_description = True\<rparr>"

definition no_fault :: "date row \<Rightarrow> (stage \<times> exn) option" where
  "no_fault r = None"

text \<open>The history insert of the row with queue id 1 fails.\<close>

definition first_insert_fails :: "date row \<Rightarrow> (stage \<times> exn) option" where
  "first_insert_fails r = (if IdQueue r = 1 then Some (AtInsertHist, deadlock) else None)"

text \<open>The example connection with the claim of both invoices in its open transaction.\<close>

definition claimed_cnx :: "date cnx" where
  "claimed_cnx = example_cnx\<lparr>working := (working example_cnx)\<lparr>T_QUEUE :=
     [\<lparr>q_row = example_row, Status = ''processing'', Attempts = 1, LastError = None,
          EnqueuedAt = 1\<rparr>,
         \<lparr>q_row = second_row, Status = ''processing'', Attempts = 1, LastError = None,
          EnqueuedAt = 2\<rparr>]\<rparr>\<rparr>"

text \<open>
  The tables after the first invoice has failed: it is \<^verbatim>\<open>error\<close>, and the second invoice is
  \<^verbatim>\<open>queued\<close> as before the claim.
\<close>

definition after_failure_db :: "date db" where
  "after_failure_db = example_db\<lparr>T_QUEUE :=
              [\<lparr>q_row = example_row, Status = ''error'', Attempts = 0,
                 LastError = Some ''Transaction was deadlocked'', EnqueuedAt = 1\<rparr>,
               \<lparr>q_row = second_row, Status = ''queued'', Attempts = 0, LastError = None,
                 EnqueuedAt = 2\<rparr>]\<rparr>"

section \<open>Properties of the status mapper\<close>

subsection \<open>Decimal text\<close>

lemma str_nat_ne: "str_nat n \<noteq> []"
  by (subst str_nat.simps) simp

lemma length_str_nat: "length (str_nat n) = 1 \<longleftrightarrow> n < 10"
  by (subst str_nat.simps) (simp add: str_nat_ne)

lemma str_nat_small: "n < 10 \<Longrightarrow> str_nat n = [digit_char n]"
  by (subst str_nat.simps) simp

lemma str_nat_step: "10 \<le> n \<Longrightarrow> str_nat n = str_nat (n div 10) @ [digit_char (n mod 10)]"
  by (subst str_nat.simps) simp

lemma digit_char_eq: "d < 10 \<Longrightarrow> e < 10 \<Longrightarrow> digit_char d = digit_char e \<longleftrightarrow> d = e"
proof -
  have "distinct ''0123456789''" by simp
  then show "d < 10 \<Longrightarrow> e < 10 \<Longrightarrow> digit_char d = digit_char e \<longleftrightarrow> d = e"
    unfolding digit_char_def by (simp add: nth_eq_iff_index_eq)
qed

lemma digit_char_literals:
  "digit_char 0 = CHR ''0''" "digit_char 1 = CHR ''1''" "digit_char 2 = CHR ''2''"
  "digit_char 3 = CHR ''3''" "digit_char 4 = CHR ''4''"
  by (simp_all add: digit_char_def)

lemma str_nat_catalog:
  "str_nat n \<in> {''0'', ''1'', ''2'', ''3'', ''4''} \<longleftrightarrow> n \<le> 4"
proof (cases "n < 10")
  case True
  have "digit_char n \<in> {digit_char 0, digit_char 1, digit_char 2, digit_char 3, digit_char 4}
      \<longleftrightarrow> n \<le> 4"
    using True by (auto simp: digit_char_eq)
  then show ?thesis
    using True by (simp add: str_nat_small digit_char_literals [symmetric] del: One_nat_def)
next
  case False
  have "str_nat n \<noteq> [c]" for c
    using False length_str_nat [of n] by auto
  then show ?thesis using False by auto
qed

lemma str_int_catalog:
  "str_int n \<in> {''0'', ''1'', ''2'', ''3'', ''4''} \<longleftrightarrow> 0 \<le> n \<and> n \<le> 4"
proof (cases "n < 0")
  case True
  then show ?thesis by (auto simp: str_int_def str_nat_ne)
next
  case False
  then show ?thesis
    using str_nat_catalog [of "nat n"] by (simp add: str_int_def nat_le_iff)
qed

lemma ndigits_le_iff: "0 < k \<Longrightarrow> ndigits n \<le> k \<longleftrightarrow> n < 10 ^ k"
proof (induction n arbitrary: k rule: str_nat.induct)
  case (1 n)
  show ?case
  proof (cases "n < 10")
    case True
    have "(10::nat) ^ 1 \<le> 10 ^ k" using 1(2) by (intro power_increasing) auto
    then have "n < 10 ^ k" using True by simp
    then show ?thesis using True 1(2) by (simp add: ndigits_def str_nat_small)
  next
    case False
    then have nd: "ndigits n = Suc (ndigits (n div 10))"
      by (simp add: ndigits_def str_nat_step)
    show ?thesis
    proof (cases "k = 1")
      case True
      have "0 < ndigits (n div 10)" by (simp add: ndigits_def str_nat_ne)
      then show ?thesis using True False nd by simp
    next
      case k: False
      then obtain j where j: "k = Suc j" "0 < j" using 1(2) by (cases k) auto
      have "ndigits (n div 10) \<le> j \<longleftrightarrow> n div 10 < 10 ^ j"
        using "1.IH" [OF False j(2)] .
      moreover have "n div 10 < 10 ^ j \<longleftrightarrow> n < 10 ^ Suc j"
        by (simp add: div_less_iff_less_mult mult.commute)
      ultimately show ?thesis using nd j by simp
    qed
  qed
qed

text \<open>The limit of 4300 digits, on the value and on the text.\<close>

lemma long_int_digits: "long_int n \<longleftrightarrow> max_str_digits < length (str_nat (nat \<bar>n\<bar>))"
proof -
  have "0 < max_str_digits" by (simp add: max_str_digits_def)
  from ndigits_le_iff [OF this, of "nat \<bar>n\<bar>"]
  have "length (str_nat (nat \<bar>n\<bar>)) \<le> max_str_digits \<longleftrightarrow> nat \<bar>n\<bar> < 10 ^ max_str_digits"
    by (simp add: ndigits_def)
  also have "\<dots> \<longleftrightarrow> \<bar>n\<bar> < 10 ^ max_str_digits"
    by (simp add: nat_less_iff)
  finally show ?thesis by (auto simp: long_int_def)
qed

lemma short_int_power: "\<bar>n\<bar> < 10 ^ k \<Longrightarrow> k \<le> max_str_digits \<Longrightarrow> \<not> long_int n"
proof -
  assume a: "\<bar>n\<bar> < 10 ^ k" and "k \<le> max_str_digits"
  then have "(10::int) ^ k \<le> 10 ^ max_str_digits" by (intro power_increasing) simp_all
  with a show ?thesis unfolding long_int_def by linarith
qed

lemma short_int: "\<bar>n\<bar> < 10 \<Longrightarrow> \<not> long_int n"
  using short_int_power [of n 1] by (simp add: max_str_digits_def)

subsection \<open>Literals\<close>

lemma digit_val_le: "is_digit c \<Longrightarrow> int (digit_val c) \<le> 9"
  unfolding is_digit_def digit_val_def by linarith

lemma underscore_no_digit: "\<not> is_digit CHR ''_''"
  by (simp add: is_digit_def)

lemma bound_step:
  assumes "(10 * a + d) * P \<le> m" and "m < (10 * a + d + 1) * P"
    and "0 \<le> d" and "d \<le> 9" and "0 < (P::int)"
  shows "a * (10 * P) \<le> m \<and> m < (a + 1) * (10 * P)"
proof -
  have e1: "(10 * a + d) * P = a * (10 * P) + d * P"
    and e2: "(a + 1) * (10 * P) = (10 * a + d + 1) * P + (9 - d) * P"
    by (simp_all add: algebra_simps)
  have "0 \<le> d * P" and "0 \<le> (9 - d) * P" using assms(3,4,5) by simp_all
  then show ?thesis using assms(1,2) unfolding e1 e2 by linarith
qed

text \<open>
  A literal consists of digits and underscores, and its value is below the power of ten of
  its number of digits.
\<close>

lemma more_digits_bound:
  "more_digits acc s = Some m \<Longrightarrow>
     (\<forall>c\<in>set s. is_digit c \<or> c = CHR ''_'')
     \<and> acc * 10 ^ length (filter is_digit s) \<le> m
     \<and> m < (acc + 1) * 10 ^ length (filter is_digit s)"
proof (induction acc s rule: more_digits.induct)
  case (1 acc)
  then show ?case by simp
next
  case (2 acc c)
  then have c: "is_digit c" and m: "m = 10 * acc + int (digit_val c)"
    by (simp_all split: if_splits)
  from digit_val_le [OF c] show ?case using c m by simp
next
  case (3 acc c d ds)
  let ?k = "length (filter is_digit (d # ds))"
  let ?j = "length (filter is_digit ds)"
  show ?case
  proof (cases "is_digit c")
    case True
    with 3 have ih: "(\<forall>x\<in>set (d # ds). is_digit x \<or> x = CHR ''_'')"
      "(10 * acc + int (digit_val c)) * 10 ^ ?k \<le> m"
      "m < (10 * acc + int (digit_val c) + 1) * 10 ^ ?k"
      by simp_all
    have "acc * (10 * 10 ^ ?k) \<le> m \<and> m < (acc + 1) * (10 * 10 ^ ?k)"
      using bound_step [OF ih(2,3)] digit_val_le [OF True] by simp
    then show ?thesis using True ih(1) by simp
  next
    case False
    with 3 have u: "c = CHR ''_''" "is_digit d"
      and run: "more_digits (10 * acc + int (digit_val d)) ds = Some m"
      by (simp_all split: if_splits)
    from "3.IH"(2) [OF False] u run
    have ih: "(\<forall>x\<in>set ds. is_digit x \<or> x = CHR ''_'')"
      "(10 * acc + int (digit_val d)) * 10 ^ ?j \<le> m"
      "m < (10 * acc + int (digit_val d) + 1) * 10 ^ ?j"
      by simp_all
    have "acc * (10 * 10 ^ ?j) \<le> m \<and> m < (acc + 1) * (10 * 10 ^ ?j)"
      using bound_step [OF ih(2,3)] digit_val_le [OF u(2)] by simp
    then show ?thesis using u ih(1) by (simp add: underscore_no_digit)
  qed
qed

lemma unsigned_literal_bound:
  assumes "unsigned_literal u = Some m"
  shows "(\<forall>c\<in>set u. is_digit c \<or> c = CHR ''_'')
     \<and> 0 \<le> m \<and> m < 10 ^ length (filter is_digit u)"
proof (cases u)
  case Nil
  with assms show ?thesis by simp
next
  case (Cons c cs)
  with assms have c: "is_digit c" and run: "more_digits (int (digit_val c)) cs = Some m"
    by (simp_all split: if_splits)
  let ?j = "length (filter is_digit cs)"
  from more_digits_bound [OF run]
  have b: "(\<forall>x\<in>set cs. is_digit x \<or> x = CHR ''_'')"
    "int (digit_val c) * 10 ^ ?j \<le> m" "m < (int (digit_val c) + 1) * 10 ^ ?j"
    by simp_all
  have "0 \<le> int (digit_val c) * 10 ^ ?j" by simp
  moreover have "(int (digit_val c) + 1) * 10 ^ ?j \<le> 10 * 10 ^ ?j"
    using digit_val_le [OF c] by (intro mult_right_mono) simp_all
  ultimately have "0 \<le> m \<and> m < 10 * 10 ^ ?j" using b(2,3) by linarith
  then show ?thesis using b(1) c Cons by simp
qed

lemma signed_literal_unsigned:
  assumes "signed_literal t = Some n"
  shows "unsigned_literal (unsigned_part t) = Some \<bar>n\<bar>"
proof (cases t)
  case Nil
  with assms show ?thesis by simp
next
  case (Cons c cs)
  consider (minus) "c = CHR ''-''" | (plus) "c = CHR ''+''" | (digit) "c \<noteq> CHR ''-''" "c \<noteq> CHR ''+''"
    by blast
  then show ?thesis
  proof cases
    case minus
    with assms Cons obtain m where m: "unsigned_literal cs = Some m" "n = - m" by auto
    with unsigned_literal_bound [OF m(1)] minus Cons show ?thesis
      by (simp add: unsigned_part_def)
  next
    case plus
    with assms Cons have m: "unsigned_literal cs = Some n" by simp
    with unsigned_literal_bound [OF m] plus Cons show ?thesis
      by (simp add: unsigned_part_def)
  next
    case digit
    with assms Cons have m: "unsigned_literal t = Some n" by simp
    with unsigned_literal_bound [OF m] digit Cons show ?thesis
      by (simp add: unsigned_part_def)
  qed
qed

text \<open>An int that \<^verbatim>\<open>int(s)\<close> returns has a text within the limit.\<close>

lemma int_of_str_short:
  assumes "int_of_str s = Inr n"
  shows "\<not> long_int n"
proof -
  define t where "t = strip_with is_int_space s"
  define p where "p = takeWhile (\<lambda>c. is_digit c \<or> c = CHR ''_'') (unsigned_part t)"
  define k where "k = length (filter is_digit p)"
  from assms have sl: "signed_literal t = Some n"
    and lim: "\<not> (unsigned_literal p \<noteq> None \<and> max_str_digits < k)"
    by (auto simp: int_of_str_def Let_def t_def p_def k_def split: if_splits option.splits)
  note ul = signed_literal_unsigned [OF sl]
  from unsigned_literal_bound [OF ul]
  have chars: "\<forall>c\<in>set (unsigned_part t). is_digit c \<or> c = CHR ''_''"
    and bound: "\<bar>n\<bar> < 10 ^ length (filter is_digit (unsigned_part t))"
    by simp_all
  from chars have p: "p = unsigned_part t"
    unfolding p_def by (simp add: takeWhile_eq_all_conv)
  with ul lim have "k \<le> max_str_digits" by simp
  then have "(10::int) ^ k \<le> 10 ^ max_str_digits" by (intro power_increasing) simp_all
  moreover have "\<bar>n\<bar> < 10 ^ k" using bound p by (simp add: k_def)
  ultimately show ?thesis unfolding long_int_def by linarith
qed

subsection \<open>Normalisation of the code\<close>

lemma as_str_JNull: "as_str items JNull = Inr None"
  by (simp add: as_str_def)

lemma as_str_JBool: "as_str items (JBool b) = Inr (Some (if b then ''1'' else ''0''))"
proof -
  have "\<not> long_int 1" "\<not> long_int 0" by (simp_all add: short_int)
  moreover have "str_int 1 = ''1''" "str_int 0 = ''0''"
    by (simp_all add: str_int_def str_nat_small digit_char_def)
  ultimately show ?thesis by (simp add: as_str_def py_str_int_def)
qed

lemma as_str_JInt:
  "as_str items (JInt n) = (if long_int n then Inl limit_error else Inr (Some (str_int n)))"
  by (simp add: as_str_def py_str_int_def)

lemma as_str_Finite:
  "as_str items (JFloat (Finite r))
     = Inr (if long_int (trunc_rat r) then stripped_text (items (JFloat (Finite r)))
            else Some (str_int (trunc_rat r)))"
  by (simp add: as_str_def py_str_int_def stripped_text_def Let_def)

lemma as_str_special:
  "as_str items (JFloat PosInf) = Inr (Some ''inf'')"
  "as_str items (JFloat NegInf) = Inr (Some ''-inf'')"
  "as_str items (JFloat NaN) = Inr (Some ''nan'')"
  by (simp_all add: as_str_def strip_def strip_with_def is_space_def)

lemma as_str_JStr:
  "as_str items (JStr s)
     = Inr (case int_of_str s of Inr k \<Rightarrow> Some (str_int k) | Inl x \<Rightarrow> stripped_text s)"
proof (cases "int_of_str s")
  case (Inl x)
  then show ?thesis by (simp add: as_str_def stripped_text_def Let_def)
next
  case (Inr k)
  with int_of_str_short [OF Inr] show ?thesis by (simp add: as_str_def py_str_int_def)
qed

lemma as_str_JArr:
  "as_str items (JArr xs)
     = (if exceeds_limit (JArr xs) then Inl limit_error
        else Inr (stripped_text (''['' @ items (JArr xs) @ '']'')))"
  by (simp add: as_str_def stripped_text_def Let_def)

lemma as_str_JObj:
  "as_str items (JObj kvs)
     = (if exceeds_limit (JObj kvs) then Inl limit_error
        else Inr (stripped_text (''{'' @ items (JObj kvs) @ ''}'')))"
  by (simp add: as_str_def stripped_text_def Let_def)

text \<open>
  \<^verbatim>\<open>_as_str\<close> raises only the limit error, and exactly for an int over the limit and for a
  list or dict that holds one.
\<close>

lemma as_str_raises: "as_str items v = Inl e \<longleftrightarrow> exceeds_limit v \<and> e = limit_error"
proof (cases v)
  case JNull
  then show ?thesis by (simp add: as_str_JNull)
next
  case (JBool b)
  then show ?thesis by (simp add: as_str_JBool)
next
  case (JInt n)
  then show ?thesis by (auto simp: as_str_JInt)
next
  case (JFloat f)
  then show ?thesis by (cases f) (simp_all add: as_str_Finite as_str_special)
next
  case (JStr s)
  then show ?thesis by (simp add: as_str_JStr)
next
  case (JArr xs)
  then show ?thesis by (auto simp: as_str_JArr simp del: exceeds_limit.simps)
next
  case (JObj kvs)
  then show ?thesis by (auto simp: as_str_JObj simp del: exceeds_limit.simps)
qed

lemma estado_cp_of_code_field: "estado_cp_of items js = as_str items (code_field js)"
  by (simp add: estado_cp_of_def code_field_def as_str_JNull split: json.splits)

lemma map_estado_spec:
  "map_estado items js
     = (case as_str items (code_field js) of
          Inl e \<Rightarrow> Inl e
        | Inr code \<Rightarrow> Inr (mapStatus_spec code))"
  by (simp add: map_estado_def estado_cp_of_code_field mapStatus_spec_def catalogo_def
      split: sum.splits option.splits)

text \<open>
  The payload is not a dict, or \<^verbatim>\<open>data\<close> is not a dict, or \<^verbatim>\<open>estadoCp\<close> is missing or null:
  the result is all-null.
\<close>

lemma map_estado_no_code:
  "code_field js = JNull \<Longrightarrow> map_estado items js = Inr (None, None, None)"
  by (simp add: map_estado_spec as_str_JNull mapStatus_spec_def)

lemma code_field_not_dict: "(\<And>kvs. js \<noteq> JObj kvs) \<Longrightarrow> code_field js = JNull"
  by (cases js) (auto simp: code_field_def)

lemma code_field_cases:
  "code_field JNull = JNull" "code_field (JBool b) = JNull" "code_field (JInt k) = JNull"
  "code_field (JFloat f) = JNull" "code_field (JStr t) = JNull"
  "code_field (JArr xs) = JNull" "code_field (JObj []) = JNull"
  "code_field (JObj [(''data'', JNull)]) = JNull"
  "code_field (JObj [(''data'', JObj [])]) = JNull"
  "code_field (JObj [(''data'', JObj [(''estadoCp'', v)])]) = v"
  by (simp_all add: code_field_def dict_get_def)

text \<open>
  \<^verbatim>\<open>map_estado\<close> raises: an int code of 4301 digits has no text, in the \<^verbatim>\<open>try\<close> block of
  \<^verbatim>\<open>_as_str\<close> and again in its \<^verbatim>\<open>except\<close> clause.
\<close>

lemma map_estado_long_code:
  "map_estado items (JObj [(''data'', JObj [(''estadoCp'', JInt (10 ^ max_str_digits))])])
     = Inl limit_error"
  by (simp add: map_estado_spec code_field_cases as_str_JInt long_int_def)

text \<open>
  C4, as the claim states it, fails: its second case promises the synthetic pair for every
  non-null code outside 0 to 4. The empty string is such a code, and \<^verbatim>\<open>_as_str\<close> turns it
  into \<^verbatim>\<open>None\<close> (\<^verbatim>\<open>return s if s else None\<close>), so the result is all-null.
\<close>

theorem map_estado_blank_code_counterexample:
  "code_field (JObj [(''data'', JObj [(''estadoCp'', JStr '''')])]) = JStr ''''
   \<and> JStr '''' \<noteq> JNull
   \<and> map_estado no_items (JObj [(''data'', JObj [(''estadoCp'', JStr '''')])])
       = Inr (None, None, None)"
  by (simp add: code_field_def dict_get_def map_estado_spec as_str_def int_of_str_def
      strip_with_def strip_def mapStatus_spec_def unsigned_part_def invalid_literal_def)

text \<open>
  C4, amended: \<^verbatim>\<open>map_estado\<close> is a function of the payload: the status table of the
  specification applied to the normalised code \<^verbatim>\<open>_as_str(data.estadoCp)\<close>, and the exception
  of the normalisation when it raises. The normalisation raises only \<^verbatim>\<open>ValueError\<close>, and
  exactly when the code is an int of more than 4300 digits (magnitude \<open>10 ^ 4300\<close> or more) or
  a list or dict that holds such an int. Otherwise:
  \<^item> a null code normalises to null;
  \<^item> a bool to \<^verbatim>\<open>1\<close> or \<^verbatim>\<open>0\<close>;
  \<^item> an int to its decimal text, which is a catalogue key exactly for 0 to 4;
  \<^item> a finite float to the decimal text of its integer part (to its own stripped text when
    that integer is over the limit), an infinity or NaN to \<^verbatim>\<open>inf\<close>, \<^verbatim>\<open>-inf\<close>, \<^verbatim>\<open>nan\<close>;
  \<^item> a string that \<^verbatim>\<open>int\<close> accepts to the decimal text of that integer; any other string
    to its stripped text, and to null when nothing is left;
  \<^item> a list or a dict to its stripped text.
  The code of a payload that is not a dict, or whose \<^verbatim>\<open>data\<close> member is missing, null or
  without \<^verbatim>\<open>estadoCp\<close>, is null.
\<close>

theorem map_estado_normalised:
  "map_estado items js
     = (case as_str items (code_field js) of
          Inl e \<Rightarrow> Inl e
        | Inr code \<Rightarrow> Inr (mapStatus_spec code))
   \<and> (as_str items v = Inl e \<longleftrightarrow> exceeds_limit v \<and> e = limit_error)
   \<and> exn_kind limit_error = ValueError
   \<and> exceeds_limit (JInt n) = (10 ^ max_str_digits \<le> \<bar>n\<bar>)
   \<and> (10 ^ max_str_digits \<le> \<bar>n\<bar> \<longleftrightarrow> max_str_digits < length (str_nat (nat \<bar>n\<bar>)))
   \<and> max_str_digits = 4300
   \<and> exceeds_limit (JArr xs) = list_ex exceeds_limit xs
   \<and> exceeds_limit (JObj kvs) = list_ex (\<lambda>kv. exceeds_limit (snd kv)) kvs
   \<and> as_str items JNull = Inr None
   \<and> as_str items (JBool b) = Inr (Some (if b then ''1'' else ''0''))
   \<and> as_str items (JInt n)
       = (if 10 ^ max_str_digits \<le> \<bar>n\<bar> then Inl limit_error else Inr (Some (str_int n)))
   \<and> (str_int n \<in> {''0'', ''1'', ''2'', ''3'', ''4''} \<longleftrightarrow> 0 \<le> n \<and> n \<le> 4)
   \<and> as_str items (JFloat (Finite r))
       = Inr (if 10 ^ max_str_digits \<le> \<bar>trunc_rat r\<bar>
              then stripped_text (items (JFloat (Finite r)))
              else Some (str_int (trunc_rat r)))
   \<and> as_str items (JFloat PosInf) = Inr (Some ''inf'')
   \<and> as_str items (JFloat NegInf) = Inr (Some ''-inf'')
   \<and> as_str items (JFloat NaN) = Inr (Some ''nan'')
   \<and> as_str items (JStr s)
       = Inr (case int_of_str s of Inr k \<Rightarrow> Some (str_int k) | Inl x \<Rightarrow> stripped_text s)
   \<and> as_str items (JArr xs)
       = (if exceeds_limit (JArr xs) then Inl limit_error
          else Inr (stripped_text (''['' @ items (JArr xs) @ '']'')))
   \<and> as_str items (JObj kvs)
       = (if exceeds_limit (JObj kvs) then Inl limit_error
          else Inr (stripped_text (''{'' @ items (JObj kvs) @ ''}'')))
   \<and> code_field JNull = JNull \<and> code_field (JBool b') = JNull \<and> code_field (JInt k) = JNull
   \<and> code_field (JFloat f) = JNull \<and> code_field (JStr t) = JNull
   \<and> code_field (JArr ys) = JNull \<and> code_field (JObj []) = JNull
   \<and> code_field (JObj [(''data'', JNull)]) = JNull
   \<and> code_field (JObj [(''data'', JObj [])]) = JNull
   \<and> code_field (JObj [(''data'', JObj [(''estadoCp'', v)])]) = v"
proof -
  have limit: "exn_kind limit_error = ValueError" "max_str_digits = 4300"
    by (simp_all add: limit_error_def max_str_digits_def)
  have int_limit: "exceeds_limit (JInt n) = (10 ^ max_str_digits \<le> \<bar>n\<bar>)"
    "10 ^ max_str_digits \<le> \<bar>n\<bar> \<longleftrightarrow> max_str_digits < length (str_nat (nat \<bar>n\<bar>))"
    using long_int_digits [of n] by (simp_all add: long_int_def)
  have containers: "exceeds_limit (JArr xs) = list_ex exceeds_limit xs"
    "exceeds_limit (JObj kvs) = list_ex (\<lambda>kv. exceeds_limit (snd kv)) kvs"
    by simp_all
  note norm = as_str_JNull [of items] as_str_JBool [of items b]
    as_str_JInt [of items n, unfolded long_int_def]
    as_str_Finite [of items r, unfolded long_int_def] as_str_special [of items]
    as_str_JStr [of items s] as_str_JArr [of items xs] as_str_JObj [of items kvs]
  note fields = code_field_cases
  show ?thesis
    by (intro conjI)
       (rule map_estado_spec as_str_raises limit int_limit containers norm fields
          str_int_catalog)+
qed

text \<open>
  The example of the specification and its neighbours: code 3 is AUTORIZADO, also as the text
  \<^verbatim>\<open>" 03 "\<close>; code 7 has the synthetic pair; \<^verbatim>\<open>True\<close> is code 1; a blank code and a payload
  that is not a dict have no status; for the int code \<open>10 ^ 4300\<close> the mapper raises.
\<close>

theorem map_estado_normalised_witness:
  "map_estado no_items (JObj [(''data'', JObj [(''estadoCp'', JInt 3)])])
     = Inr (Some ''AUTORIZADO'', Some ''AUTORIZADO (3)'', Some ''3'')
   \<and> map_estado no_items (JObj [(''data'', JObj [(''estadoCp'', JStr '' 03 '')])])
     = Inr (Some ''AUTORIZADO'', Some ''AUTORIZADO (3)'', Some ''3'')
   \<and> map_estado no_items (JObj [(''data'', JObj [(''estadoCp'', JInt 7)])])
     = Inr (Some ''CODE_7'', Some ''NO_MAPEADO (7)'', Some ''7'')
   \<and> map_estado no_items (JObj [(''data'', JObj [(''estadoCp'', JBool True)])])
     = Inr (Some ''ACEPTADO'', Some ''ACEPTADO (1)'', Some ''1'')
   \<and> map_estado no_items (JObj [(''data'', JObj [(''estadoCp'', JStr ''  '')])])
     = Inr (None, None, None)
   \<and> map_estado no_items (JArr []) = Inr (None, None, None)
   \<and> map_estado no_items (JObj [(''data'', JObj [(''estadoCp'', JInt (10 ^ max_str_digits))])])
     = Inl limit_error"
proof -
  have texts: "str_int 3 = ''3''" "str_int 7 = ''7''"
    by (simp_all add: str_int_def str_nat_small digit_char_def)
  have text3: "int_of_str '' 03 '' = Inr 3"
    by (simp add: int_of_str_def strip_with_def is_int_space_def unsigned_part_def is_digit_def
        digit_val_def max_str_digits_def)
  have blank: "int_of_str ''  '' = Inl (invalid_literal ''  '')" "stripped_text ''  '' = None"
    by (simp_all add: int_of_str_def strip_with_def is_int_space_def unsigned_part_def
        stripped_text_def strip_def is_space_def)
  have small: "\<not> (10::int) ^ max_str_digits \<le> 3" "\<not> (10::int) ^ max_str_digits \<le> 7"
    using short_int [of 3] short_int [of 7] by (simp_all add: long_int_def)
  note t = map_estado_normalised [where items = no_items]
  have a: "map_estado no_items (JObj [(''data'', JObj [(''estadoCp'', JInt 3)])])
     = Inr (Some ''AUTORIZADO'', Some ''AUTORIZADO (3)'', Some ''3'')"
    using t [where js = "JObj [(''data'', JObj [(''estadoCp'', JInt 3)])]"
               and v = "JInt 3" and n = 3] small
    by (simp add: texts mapStatus_spec_def)
  have b: "map_estado no_items (JObj [(''data'', JObj [(''estadoCp'', JStr '' 03 '')])])
     = Inr (Some ''AUTORIZADO'', Some ''AUTORIZADO (3)'', Some ''3'')"
    using t [where js = "JObj [(''data'', JObj [(''estadoCp'', JStr '' 03 '')])]"
               and v = "JStr '' 03 ''" and s = "'' 03 ''"]
    by (simp add: texts text3 mapStatus_spec_def)
  have c: "map_estado no_items (JObj [(''data'', JObj [(''estadoCp'', JInt 7)])])
     = Inr (Some ''CODE_7'', Some ''NO_MAPEADO (7)'', Some ''7'')"
    using t [where js = "JObj [(''data'', JObj [(''estadoCp'', JInt 7)])]"
               and v = "JInt 7" and n = 7] small
    by (simp add: texts mapStatus_spec_def)
  have d: "map_estado no_items (JObj [(''data'', JObj [(''estadoCp'', JBool True)])])
     = Inr (Some ''ACEPTADO'', Some ''ACEPTADO (1)'', Some ''1'')"
    using t [where js = "JObj [(''data'', JObj [(''estadoCp'', JBool True)])]"
               and v = "JBool True" and b = True]
    by (simp add: mapStatus_spec_def)
  have e: "map_estado no_items (JObj [(''data'', JObj [(''estadoCp'', JStr ''  '')])])
     = Inr (None, None, None)"
    using t [where js = "JObj [(''data'', JObj [(''estadoCp'', JStr ''  '')])]"
               and v = "JStr ''  ''" and s = "''  ''"]
    by (simp add: blank mapStatus_spec_def)
  have f: "map_estado no_items (JArr []) = Inr (None, None, None)"
    using t [where js = "JArr []" and ys = "[]"]
    by (simp add: mapStatus_spec_def)
  have g: "map_estado no_items (JObj [(''data'', JObj [(''estadoCp'', JInt (10 ^ max_str_digits))])])
     = Inl limit_error"
    using t [where js = "JObj [(''data'', JObj [(''estadoCp'', JInt (10 ^ max_str_digits))])]"
               and v = "JInt (10 ^ max_str_digits)" and n = "10 ^ max_str_digits"]
    by simp
  show ?thesis using a b c d e f g by simp
qed

section \<open>Properties of the snapshot reconciler\<close>

lemma find_map_update:
  assumes "find P xs = Some x" and "\<And>y. P (f y) = P y"
  shows "find P (map (\<lambda>y. if P y then f y else y) xs) = Some (f x)"
  using assms by (induction xs) (auto split: if_splits)

lemma upsert_snapshot_present:
  assumes "find (has_id (IdFactura r)) tbl = Some prev"
  shows "find (has_id (IdFactura r)) (upsert_snapshot ahora tbl r tx de cod msg) =
     Some (if pair_differs prev tx de
           then prev\<lparr>Estado_Actual := tx, Estado_Descripcion := de, Codigo_Respuesta := cod,
                      Mensaje := msg, Fecha_Ultima_Consulta := Some ahora,
                      Fecha_Ultimo_Cambio := Some ahora, Cambio_Estado := Some True\<rparr>
           else prev\<lparr>Codigo_Respuesta := cod, Mensaje := msg,
                      Fecha_Ultima_Consulta := Some ahora, Cambio_Estado := Some False\<rparr>)"
proof -
  let ?P = "has_id (IdFactura r)"
  let ?f = "\<lambda>s. s\<lparr>Estado_Actual := tx, Estado_Descripcion := de, Codigo_Respuesta := cod,
                  Mensaje := msg, Fecha_Ultima_Consulta := Some ahora,
                  Fecha_Ultimo_Cambio := Some ahora, Cambio_Estado := Some True\<rparr>"
  let ?g = "\<lambda>s. s\<lparr>Codigo_Respuesta := cod, Mensaje := msg,
                  Fecha_Ultima_Consulta := Some ahora, Cambio_Estado := Some False\<rparr>"
  have f: "find ?P (map (\<lambda>s. if ?P s then ?f s else s) tbl) = Some (?f prev)"
    by (rule find_map_update [OF assms]) (simp add: has_id_def)
  have g: "find ?P (map (\<lambda>s. if ?P s then ?g s else s) tbl) = Some (?g prev)"
    by (rule find_map_update [OF assms]) (simp add: has_id_def)
  show ?thesis
    using assms f g by (simp add: upsert_snapshot_def pair_differs_def)
qed

text \<open>
  C2: when the invoice id already has a snapshot row \<open>prev\<close>, the row found after the
  reconciliation has its change flag set to whether the pair (status text, status
  description) differs from the stored pair, null read as the empty string. If the pair
  differs, the row is \<open>prev\<close> with the status fields, code and message replaced and both
  last-query and last-change set to now; if it does not, the row is \<open>prev\<close> with only code,
  message and last-query replaced, so last-change keeps its old value.
\<close>

theorem upsert_snapshot_change_detection:
  assumes "find (has_id (IdFactura r)) tbl = Some prev"
  shows "\<exists>new. find (has_id (IdFactura r)) (upsert_snapshot ahora tbl r tx de cod msg) = Some new
     \<and> Cambio_Estado new = Some (pair_differs prev tx de)
     \<and> Fecha_Ultima_Consulta new = Some ahora
     \<and> (pair_differs prev tx de \<longrightarrow>
          new = prev\<lparr>Estado_Actual := tx, Estado_Descripcion := de, Codigo_Respuesta := cod,
                      Mensaje := msg, Fecha_Ultima_Consulta := Some ahora,
                      Fecha_Ultimo_Cambio := Some ahora, Cambio_Estado := Some True\<rparr>)
     \<and> (\<not> pair_differs prev tx de \<longrightarrow>
          new = prev\<lparr>Codigo_Respuesta := cod, Mensaje := msg,
                      Fecha_Ultima_Consulta := Some ahora, Cambio_Estado := Some False\<rparr>
          \<and> Fecha_Ultimo_Cambio new = Fecha_Ultimo_Cambio prev)"
  using upsert_snapshot_present [OF assms, of ahora tx de cod msg] by auto

theorem upsert_snapshot_change_detection_witness:
  "find (has_id (IdFactura example_row)) [example_snapshot] = Some example_snapshot
   \<and> (\<exists>new. find (has_id (IdFactura example_row))
               (upsert_snapshot 20 [example_snapshot] example_row (Some ''ANULADO'')
                  (Some ''ANULADO (2)'') (Some ''2'') None) = Some new
            \<and> Cambio_Estado new = Some True
            \<and> Fecha_Ultima_Consulta new = Some 20
            \<and> Fecha_Ultimo_Cambio new = Some 20
            \<and> Estado_Actual new = Some ''ANULADO'')"
proof -
  have h: "find (has_id (IdFactura example_row)) [example_snapshot] = Some example_snapshot"
    by (simp add: has_id_def example_row_def example_snapshot_def)
  have d: "pair_differs example_snapshot (Some ''ANULADO'') (Some ''ANULADO (2)'')"
    by (simp add: pair_differs_def example_snapshot_def or_empty_def)
  from upsert_snapshot_change_detection
         [OF h, of 20 "Some ''ANULADO''" "Some ''ANULADO (2)''" "Some ''2''" None]
  obtain new where
    "find (has_id (IdFactura example_row))
       (upsert_snapshot 20 [example_snapshot] example_row (Some ''ANULADO'')
          (Some ''ANULADO (2)'') (Some ''2'') None) = Some new"
    "Cambio_Estado new = Some True" "Fecha_Ultima_Consulta new = Some 20"
    "new = example_snapshot\<lparr>Estado_Actual := Some ''ANULADO'',
             Estado_Descripcion := Some ''ANULADO (2)'', Codigo_Respuesta := Some ''2'',
             Mensaje := None, Fecha_Ultima_Consulta := Some 20,
             Fecha_Ultimo_Cambio := Some 20, Cambio_Estado := Some True\<rparr>"
    using d by auto
  then show ?thesis using h by auto
qed

lemma find_map_pres:
  assumes "\<And>y. P (f y) = P y"
  shows "find P (map f xs) = map_option f (find P xs)"
  by (induction xs) (simp_all add: assms)

lemma find_snoc: "find P (xs @ [y]) = (case find P xs of None \<Rightarrow> (if P y then Some y else None) | Some x \<Rightarrow> Some x)"
  by (induction xs) simp_all

text \<open>
  Every branch of \<^verbatim>\<open>upsert_snapshot\<close> keeps the rows that were in the table, in their places,
  with their invoice ids and first-query timestamps.
\<close>

lemma upsert_snapshot_frame:
  "take (length tbl) (map s_IdFactura (upsert_snapshot ahora tbl r tx de cod msg))
     = map s_IdFactura tbl
   \<and> take (length tbl) (map Fecha_Primera_Consulta (upsert_snapshot ahora tbl r tx de cod msg))
     = map Fecha_Primera_Consulta tbl
   \<and> length tbl \<le> length (upsert_snapshot ahora tbl r tx de cod msg)"
  by (simp add: upsert_snapshot_def Let_def comp_def split: option.splits)

lemma upsert_snapshot_keeps_first:
  assumes "find (has_id i) tbl = Some prev"
  shows "\<exists>new. find (has_id i) (upsert_snapshot ahora tbl r tx de cod msg) = Some new
     \<and> Fecha_Primera_Consulta new = Fecha_Primera_Consulta prev"
proof (cases "find (has_id (IdFactura r)) tbl")
  case None
  then show ?thesis using assms by (simp add: upsert_snapshot_def find_snoc)
next
  case (Some p)
  let ?f = "\<lambda>s. if has_id (IdFactura r) s
              then s\<lparr>Estado_Actual := tx, Estado_Descripcion := de, Codigo_Respuesta := cod,
                      Mensaje := msg, Fecha_Ultima_Consulta := Some ahora,
                      Fecha_Ultimo_Cambio := Some ahora, Cambio_Estado := Some True\<rparr>
              else s"
  let ?g = "\<lambda>s. if has_id (IdFactura r) s
              then s\<lparr>Codigo_Respuesta := cod, Mensaje := msg,
                      Fecha_Ultima_Consulta := Some ahora, Cambio_Estado := Some False\<rparr>
              else s"
  have f: "find (has_id i) (map ?f tbl) = map_option ?f (find (has_id i) tbl)"
    by (rule find_map_pres) (simp add: has_id_def)
  have g: "find (has_id i) (map ?g tbl) = map_option ?g (find (has_id i) tbl)"
    by (rule find_map_pres) (simp add: has_id_def)
  show ?thesis
    using Some assms f g by (simp add: upsert_snapshot_def Let_def)
qed

lemma reconcile_all_keeps_first:
  assumes "find (has_id i) tbl = Some prev"
  shows "\<exists>new. find (has_id i) (reconcile_all tbl cs) = Some new
     \<and> Fecha_Primera_Consulta new = Fecha_Primera_Consulta prev"
  using assms
proof (induction cs arbitrary: tbl prev)
  case Nil
  then show ?case by (simp add: reconcile_all_def)
next
  case (Cons c cs)
  from upsert_snapshot_keeps_first [OF Cons.prems]
  obtain mid where mid: "find (has_id i) (reconcile tbl c) = Some mid"
    "Fecha_Primera_Consulta mid = Fecha_Primera_Consulta prev"
    unfolding reconcile_def by blast
  from Cons.IH [OF mid(1)] mid(2) show ?case
    by (simp add: reconcile_all_def)
qed

lemma upsert_snapshot_absent:
  assumes "find (has_id (IdFactura r)) tbl = None"
  shows "\<exists>new. find (has_id (IdFactura r)) (upsert_snapshot ahora tbl r tx de cod msg) = Some new
     \<and> Fecha_Primera_Consulta new = Some ahora"
  using assms by (simp add: upsert_snapshot_def find_snoc has_id_def)

text \<open>
  C3: the first-query timestamp is written by the insert, which happens only when the invoice
  id has no row yet, and it is then \<^verbatim>\<open>ahora\<close>. When the id has a row, any run of later
  reconciliations (of this or of other invoices) leaves the row found for the id with the
  first-query timestamp it had.
\<close>

theorem first_query_timestamp_written_once:
  "(find (has_id (IdFactura r)) tbl = None \<longrightarrow>
      (\<exists>new. find (has_id (IdFactura r)) (upsert_snapshot ahora tbl r tx de cod msg) = Some new
            \<and> Fecha_Primera_Consulta new = Some ahora))
   \<and> (\<forall>prev. find (has_id i) tbl = Some prev \<longrightarrow>
      (\<exists>new. find (has_id i) (reconcile_all tbl cs) = Some new
            \<and> Fecha_Primera_Consulta new = Fecha_Primera_Consulta prev))"
  using upsert_snapshot_absent reconcile_all_keeps_first by blast

theorem first_query_timestamp_written_once_witness:
  "find (has_id (IdFactura example_row)) [] = None
   \<and> (\<exists>new. find (has_id (IdFactura example_row))
               (upsert_snapshot 10 [] example_row (Some ''ACEPTADO'') (Some ''ACEPTADO (1)'')
                  (Some ''1'') None) = Some new
            \<and> Fecha_Primera_Consulta new = Some 10)
   \<and> find (has_id 100) [example_snapshot] = Some example_snapshot
   \<and> (\<exists>new. find (has_id 100) (reconcile_all [example_snapshot] [example_reconciliation])
               = Some new
            \<and> Fecha_Primera_Consulta new = Some 10)"
proof -
  have a: "find (has_id (IdFactura example_row)) [] = None" by simp
  have b: "find (has_id 100) [example_snapshot] = Some example_snapshot"
    by (simp add: has_id_def example_snapshot_def)
  have c: "Fecha_Primera_Consulta example_snapshot = Some 10"
    by (simp add: example_snapshot_def)
  from first_query_timestamp_written_once
         [of example_row "[]" 10 "Some ''ACEPTADO''" "Some ''ACEPTADO (1)''" "Some ''1''" None
             100 "[example_reconciliation]"]
       first_query_timestamp_written_once
         [of example_row "[example_snapshot]" 10 None None None None 100
             "[example_reconciliation]"]
  show ?thesis using a b c by auto
qed

section \<open>Properties of the request body\<close>

lemma str_nat_hundreds:
  assumes "100 \<le> n"
  shows "str_nat n = str_nat (n div 100) @ [digit_char (n div 10 mod 10), digit_char (n mod 10)]"
proof -
  have a: "10 \<le> n" and b: "10 \<le> n div 10" using assms by auto
  have "n div 10 div 10 = n div 100" by (simp add: div_mult2_eq)
  then show ?thesis
    using str_nat_step [OF a] str_nat_step [OF b] by simp
qed

lemma str_decimal2_money_text:
  "str_decimal2 \<lparr>dneg = neg, dcoeff = c, dexp = - 2\<rparr> = money_text neg c"
proof -
  consider "c < 10" | "10 \<le> c" "c < 100" | "100 \<le> c" by linarith
  then show ?thesis
  proof cases
    case 1
    then have "str_nat c = [digit_char c]" "c div 100 = 0" "c div 10 = 0" "c mod 10 = c"
      by (simp_all add: str_nat_small)
    moreover have "str_nat 0 = ''0''" "digit_char 0 = CHR ''0''"
      by (simp_all add: str_nat_small digit_char_def)
    ultimately show ?thesis by (simp add: str_decimal2_def money_text_def)
  next
    case 2
    then have "c div 10 < 10" by simp
    then have "str_nat c = [digit_char (c div 10), digit_char (c mod 10)]" "c div 100 = 0"
      "c div 10 mod 10 = c div 10"
      using 2 by (simp_all add: str_nat_step str_nat_small)
    moreover have "str_nat 0 = ''0''"
      by (simp add: str_nat_small digit_char_def)
    ultimately show ?thesis by (simp add: str_decimal2_def money_text_def)
  next
    case 3
    have "str_nat (c div 100) \<noteq> []" by (rule str_nat_ne)
    then have "0 < length (str_nat (c div 100))" by simp
    then show ?thesis
      by (simp add: str_decimal2_def money_text_def str_nat_hundreds [OF 3] Let_def)
  qed
qed

lemma half_up_nat:
  assumes "0 < (P::nat)"
  shows "(2 * c + P) div (2 * P) = c div P + (if P \<le> 2 * (c mod P) then 1 else 0)"
proof -
  define q r where "q = c div P" and "r = c mod P"
  have c: "c = q * P + r" and r: "r < P" using assms by (simp_all add: q_def r_def)
  have "2 * c + P = q * (2 * P) + (2 * r + P)" using c by (simp add: algebra_simps)
  then have "(2 * c + P) div (2 * P) = q + (2 * r + P) div (2 * P)"
    using assms by (metis div_mult_self3 mult_is_0 not_gr_zero zero_neq_numeral add.commute)
  moreover have "(2 * r + P) div (2 * P) = (if P \<le> 2 * r then 1 else 0)"
  proof (cases "P \<le> 2 * r")
    case True
    then have "2 * P \<le> 2 * r + P" "2 * r + P < 2 * (2 * P)" using r by auto
    then have "(2 * r + P) div (2 * P) = 1"
      by (metis One_nat_def div_nat_eqI mult.commute mult_2_right nat_mult_1_right one_add_one mult_Suc_right)
    then show ?thesis using True by simp
  next
    case False
    then show ?thesis by simp
  qed
  ultimately show ?thesis by (simp add: q_def r_def)
qed


lemma floor_nat_half: "\<lfloor>(of_nat m :: rat) + 1 / 2\<rfloor> = int m"
  by (simp add: floor_unique)

lemma rescale_half_up_spec: "rescale_half_up d = round_half_up_cents (dec_abs d)"
proof -
  consider "0 \<le> dexp d" | "dexp d = - 1" | "dexp d = - 2" | "dexp d < - 2" by linarith
  then show ?thesis
  proof cases
    case 1
    then have "nat (dexp d + 2) = nat (dexp d) + 2" by simp
    then have "dec_abs d * 100 = of_nat (dcoeff d * 10 ^ nat (dexp d + 2))"
      using 1 by (simp add: dec_abs_def power_add)
    then have "round_half_up_cents (dec_abs d) = dcoeff d * 10 ^ nat (dexp d + 2)"
      unfolding round_half_up_cents_def by (simp only: floor_nat_half nat_int)
    then show ?thesis
      using 1 by (simp add: rescale_half_up_def)
  next
    case 2
    then have "dec_abs d * 100 = of_nat (dcoeff d * 10)"
      by (simp add: dec_abs_def)
    then have "round_half_up_cents (dec_abs d) = dcoeff d * 10"
      unfolding round_half_up_cents_def by (simp only: floor_nat_half nat_int)
    then show ?thesis
      using 2 by (simp add: rescale_half_up_def)
  next
    case 3
    then have "dec_abs d * 100 = of_nat (dcoeff d)"
      by (simp add: dec_abs_def)
    then have "round_half_up_cents (dec_abs d) = dcoeff d"
      unfolding round_half_up_cents_def by (simp only: floor_nat_half nat_int)
    then show ?thesis
      using 3 by (simp add: rescale_half_up_def)
  next
    case 4
    define k where "k = nat (- 2 - dexp d)"
    define P :: nat where "P = 10 ^ k"
    have P: "0 < P" by (simp add: P_def)
    have "nat (- dexp d) = k + 2" using 4 by (simp add: k_def)
    then have "dec_abs d * 100 = of_nat (dcoeff d) / of_nat P"
      using 4 by (simp add: dec_abs_def P_def power_add)
    then have "dec_abs d * 100 + 1 / 2 = of_nat (2 * dcoeff d + P) / of_nat (2 * P)"
      using P by (simp add: field_simps)
    then have "\<lfloor>dec_abs d * 100 + 1 / 2\<rfloor> = int ((2 * dcoeff d + P) div (2 * P))"
      by (simp only: floor_divide_of_nat_eq)
    then have "round_half_up_cents (dec_abs d) = (2 * dcoeff d + P) div (2 * P)"
      by (simp add: round_half_up_cents_def)
    then show ?thesis
      using 4 half_up_nat [OF P, of "dcoeff d"]
      by (simp add: rescale_half_up_def k_def [symmetric] P_def [symmetric] Let_def)
  qed
qed

lemma ndigits_lower: "0 < n \<Longrightarrow> 10 ^ (ndigits n - 1) \<le> n"
proof (cases "ndigits n = 1")
  case True
  assume "0 < n" then show ?thesis using True by simp
next
  case False
  have "0 < ndigits n" by (simp add: ndigits_def str_nat_ne)
  then have k: "0 < ndigits n - 1" using False by simp
  have "\<not> ndigits n \<le> ndigits n - 1" using k by simp
  then show ?thesis using ndigits_le_iff [OF k, of n] by simp
qed

lemma too_many_digits:
  assumes "0 < dcoeff d" and "28 < dexp d + int (ndigits (dcoeff d)) - 1 + 2 + 1"
  shows "10 ^ 28 \<le> rescale_half_up d"
proof (cases "- 2 \<le> dexp d")
  case True
  define m where "m = nat (dexp d + 2)"
  have "28 \<le> ndigits (dcoeff d) - 1 + m" using assms(2) True unfolding m_def by linarith
  then have "(10::nat) ^ 28 \<le> 10 ^ (ndigits (dcoeff d) - 1 + m)"
    by (intro power_increasing) auto
  also have "\<dots> = 10 ^ (ndigits (dcoeff d) - 1) * 10 ^ m" by (simp add: power_add)
  also have "\<dots> \<le> dcoeff d * 10 ^ m"
    using ndigits_lower [OF assms(1)] by (intro mult_right_mono) auto
  finally show ?thesis using True by (simp add: rescale_half_up_def m_def)
next
  case False
  define k where "k = nat (- 2 - dexp d)"
  have "28 + k \<le> ndigits (dcoeff d) - 1" using assms(2) False unfolding k_def by linarith
  then obtain j where j: "ndigits (dcoeff d) - 1 = 28 + k + j" using le_Suc_ex by blast
  have "(10::nat) ^ 28 * 10 ^ k \<le> 10 ^ (28 + k + j)"
    by (simp add: power_add del: power_numeral)
  then have "(10::nat) ^ 28 * 10 ^ k \<le> 10 ^ (ndigits (dcoeff d) - 1)"
    by (simp only: j)
  also have "\<dots> \<le> dcoeff d" by (rule ndigits_lower [OF assms(1)])
  finally have "(10::nat) ^ 28 \<le> dcoeff d div 10 ^ k"
    by (simp add: less_eq_div_iff_mult_less_eq)
  then show ?thesis using False by (simp add: rescale_half_up_def k_def [symmetric] Let_def)
qed

lemma quantize_cents_spec:
  "quantize_cents d =
     (if round_half_up_cents (dec_abs d) < 10 ^ 28
      then Inr \<lparr>dneg = dneg d, dcoeff = round_half_up_cents (dec_abs d), dexp = - 2\<rparr>
      else Inl (Exn InvalidOperation ''quantize result has too many digits for current context''))"
proof (cases "dcoeff d = 0")
  case True
  then have "round_half_up_cents (dec_abs d) = 0"
    by (simp add: dec_abs_def round_half_up_cents_def)
  then show ?thesis using True by (simp add: quantize_cents_def)
next
  case False
  then have pos: "0 < dcoeff d" by simp
  have fits: "ndigits (rescale_half_up d) \<le> 28 \<longleftrightarrow> rescale_half_up d < 10 ^ 28"
    by (rule ndigits_le_iff) simp
  show ?thesis
  proof (cases "28 < dexp d + int (ndigits (dcoeff d)) - 1 + 2 + 1")
    case True
    then have "\<not> rescale_half_up d < 10 ^ 28"
      using too_many_digits [OF pos True] by simp
    then show ?thesis
      using True False by (simp add: quantize_cents_def rescale_half_up_spec [symmetric])
  next
    case no: False
    have "ndigits (rescale_half_up d) \<le> 28 \<or> \<not> rescale_half_up d < 10 ^ 28"
      using fits by blast
    then show ?thesis
      using False no fits
      by (auto simp add: quantize_cents_def rescale_half_up_spec [symmetric] not_less
          simp del: power_numeral)
  qed
qed

lemma monto_of_spec:
  "monto_of tot =
     (case tot of
        None \<Rightarrow> Inr ''0.00''
      | Some t \<Rightarrow>
          if round_half_up_cents (dec_abs t) < 10 ^ 28
          then Inr (money_text (dneg t) (round_half_up_cents (dec_abs t)))
          else Inl (Exn InvalidOperation
                      ''quantize result has too many digits for current context''))"
  by (simp add: monto_of_def quantize_cents_spec str_decimal2_money_text split: option.splits
      del: power_numeral)

text \<open>
  C5, as the claim states it, fails: not every queue row gets a serialized amount. For the
  amount \<^verbatim>\<open>Decimal("1E+26")\<close> the two-decimal result would need 29 digits, more than the
  precision of the default context, and \<^verbatim>\<open>quantize\<close> raises \<^verbatim>\<open>InvalidOperation\<close>: no request
  body is produced.
\<close>

theorem to_body_postman_huge_amount_counterexample:
  "to_body_postman dmy_text no_strptime
     (example_row\<lparr>ImporteTotal := Some \<lparr>dneg = False, dcoeff = 1, dexp = 26\<rparr>\<rparr>)
   = Inl (Exn InvalidOperation ''quantize result has too many digits for current context'')"
proof -
  have "ndigits 1 = 1" by (simp add: ndigits_def str_nat_small)
  then show ?thesis
    by (simp add: to_body_postman_def fecha_str_of_def example_row_def monto_of_def
        quantize_cents_def)
qed

text \<open>
  C5, amended: whenever \<^verbatim>\<open>to_body_postman\<close> returns a body, its \<^verbatim>\<open>monto\<close> is \<^verbatim>\<open>"0.00"\<close> for a
  null amount, and otherwise the fixed two-decimal text of the amount rounded half-up to
  cents (a tie goes away from zero; the sign is kept, also on a zero). A body is returned
  exactly when the issue date is null, a date, or a text that \<^verbatim>\<open>strptime\<close> accepts, and the
  rounded amount has at most 28 digits, that is, is less than \<open>10 ^ 28\<close> cents.
\<close>

theorem to_body_postman_monto:
  "(to_body_postman strftime strptime r = Inr b \<longrightarrow>
      monto b = (case ImporteTotal r of
                   None \<Rightarrow> ''0.00''
                 | Some t \<Rightarrow> money_text (dneg t) (round_half_up_cents (dec_abs t))))
   \<and> ((\<exists>b'. to_body_postman strftime strptime r = Inr b') \<longleftrightarrow>
        (\<exists>f. fecha_str_of strftime strptime (FechaEmision r) = Inr f)
        \<and> (\<forall>t. ImporteTotal r = Some t \<longrightarrow> round_half_up_cents (dec_abs t) < 10 ^ 28))"
  by (cases "fecha_str_of strftime strptime (FechaEmision r)"; cases "ImporteTotal r")
     (auto simp add: to_body_postman_def monto_of_spec simp del: power_numeral)

theorem to_body_postman_monto_witness:
  "to_body_postman dmy_text no_strptime
     (example_row\<lparr>ImporteTotal := Some \<lparr>dneg = False, dcoeff = 12345, dexp = - 1\<rparr>\<rparr>)
   = Inr \<lparr>numRuc = Some ''20123456789'', codComp = Some ''01'', numeroSerie = Some ''F001'',
          numero = Some ''123'', fechaEmision = Some ''15/01/2024'', monto = ''1234.50''\<rparr>
   \<and> monto \<lparr>numRuc = Some ''20123456789'', codComp = Some ''01'', numeroSerie = Some ''F001'',
          numero = Some ''123'', fechaEmision = Some ''15/01/2024'', monto = ''1234.50''\<rparr>
     = money_text False (round_half_up_cents (dec_abs \<lparr>dneg = False, dcoeff = 12345, dexp = - 1\<rparr>))
   \<and> (\<exists>b'. to_body_postman dmy_text no_strptime (example_row\<lparr>ImporteTotal := None\<rparr>) = Inr b'
          \<and> monto b' = ''0.00'')"
proof -
  let ?r = "example_row\<lparr>ImporteTotal := Some \<lparr>dneg = False, dcoeff = 12345, dexp = - 1\<rparr>\<rparr>"
  let ?b = "\<lparr>numRuc = Some ''20123456789'', codComp = Some ''01'', numeroSerie = Some ''F001'',
          numero = Some ''123'', fechaEmision = Some ''15/01/2024'', monto = ''1234.50''\<rparr>"
  have run: "to_body_postman dmy_text no_strptime ?r = Inr ?b"
    by (simp add: to_body_postman_def fecha_str_of_def example_row_def monto_of_def
        quantize_cents_def rescale_half_up_def ndigits_def str_decimal2_def str_nat.simps
        digit_char_def dmy_text_def pad2_def Let_def)
  have none: "to_body_postman dmy_text no_strptime (example_row\<lparr>ImporteTotal := None\<rparr>)
      = Inr (?b\<lparr>monto := ''0.00''\<rparr>)"
    by (simp add: to_body_postman_def fecha_str_of_def example_row_def monto_of_def
        digit_char_def dmy_text_def pad2_def)
  from to_body_postman_monto [of dmy_text no_strptime ?r ?b] run
  have "monto ?b = money_text False (round_half_up_cents (dec_abs \<lparr>dneg = False, dcoeff = 12345, dexp = - 1\<rparr>))"
    by simp
  moreover from to_body_postman_monto
      [of dmy_text no_strptime "example_row\<lparr>ImporteTotal := None\<rparr>" "?b\<lparr>monto := ''0.00''\<rparr>"] none
  have "monto (?b\<lparr>monto := ''0.00''\<rparr>) = ''0.00''" by simp
  ultimately show ?thesis using run none by simp
qed

section \<open>Properties of the final sync\<close>

lemma mirror_idem: "mirror (mirror d s) s = mirror d s"
  by (simp add: mirror_def split: option.splits)

lemma mirror_id [simp]: "f_IdFactura (mirror d s) = f_IdFactura d"
  by (simp add: mirror_def)

lemma joined_mirror [simp]: "joined snapshot (mirror d s) = joined snapshot d"
  by (simp add: joined_def)

lemma is_joined_mirror [simp]: "is_joined snapshot (mirror d s) = is_joined snapshot d"
  by (simp add: is_joined_def)

lemma sync_rows_idem: "sync_rows snapshot (sync_rows snapshot final) = sync_rows snapshot final"
  by (induction final) (simp_all add: sync_rows_def mirror_idem split: option.splits)

lemma sync_rows_upd:
  "map f_IdFactura (filter (is_joined snapshot) (sync_rows snapshot final))
     = map f_IdFactura (filter (is_joined snapshot) final)"
  by (induction final) (simp_all add: sync_rows_def split: option.splits)

lemma sync_rows_frame:
  "map f_IdFactura (sync_rows snapshot final) = map f_IdFactura final
   \<and> map f_negocio (sync_rows snapshot final) = map f_negocio final"
  by (induction final) (simp_all add: sync_rows_def mirror_def split: option.splits)

text \<open>
  After the \<^verbatim>\<open>UPDATE\<close>, the diagnostic test still reports a joined pair in two cases only: the
  final row had a first-query timestamp of its own that is not the snapshot's (the
  \<^verbatim>\<open>COALESCE\<close> keeps it), or the snapshot has the change flag set and no last-change
  timestamp.
\<close>

lemma differs_after_mirror:
  "differs (mirror d s) s \<longleftrightarrow>
     (SUNAT_Fecha_Primera d \<noteq> None \<and> SUNAT_Fecha_Primera d \<noteq> Fecha_Primera_Consulta s)
     \<or> (Cambio_Estado s = Some True \<and> Fecha_Ultimo_Cambio s = None)"
  by (cases "SUNAT_Fecha_Primera d"; cases "Fecha_Primera_Consulta s"; cases "Cambio_Estado s";
      cases "Fecha_Ultimo_Cambio s")
     (auto simp: differs_def mirror_def text_differs_def fecha_differs_def sql_neq_def
        cambio_differs_def)

text \<open>
  C1, as the claim states it, fails. With the final row of invoice 100 already equal to its
  snapshot row, no mirrored column differs (\<^verbatim>\<open>to_fix\<close> is 0), yet the \<^verbatim>\<open>UPDATE\<close> rewrites the
  row and the count read from \<^verbatim>\<open>#upd\<close> is 1: on the first call, and again on every later
  one. When the driver leaves the cursor without a result set, the count is 0 even for the
  call that fills in a blank row.
\<close>

theorem update_final_count_counterexample:
  "update_final_from_snapshot True [example_final_synced] [example_snapshot]
     = Inr ([example_final_synced], 0, 1)
   \<and> update_final_from_snapshot False [example_final_blank] [example_snapshot]
     = Inr ([example_final_synced], 1, 0)"
  by (simp add: update_final_from_snapshot_def count_to_fix_def sync_rows_def joined_def
      is_joined_def has_id_def differs_def mirror_def text_differs_def fecha_differs_def
      sql_neq_def cambio_differs_def or_empty_def example_final_synced_def
      example_final_blank_def example_snapshot_def)

text \<open>
  C1, amended: the final sync is idempotent on the table. When a call succeeds, a second call
  on its result with the same snapshot succeeds, leaves every row as the first call left it
  and obtains the same count. The \<^verbatim>\<open>UPDATE\<close> rewrites every final row that has a snapshot
  row for its invoice id, whether or not a mirrored column differs, and touches neither the
  ids nor the business columns. The count is the number of rewritten rows when the driver
  exposes the result set of the last \<^verbatim>\<open>SELECT\<close>, and 0 otherwise.
\<close>

theorem update_final_idempotent:
  assumes "update_final_from_snapshot has_description final snapshot = Inr (final', to_fix, affected)"
  shows "(\<exists>to_fix'. update_final_from_snapshot has_description final' snapshot
            = Inr (final', to_fix', affected))
     \<and> final' = sync_rows snapshot final
     \<and> affected = (if has_description then length (filter (is_joined snapshot) final) else 0)
     \<and> map f_IdFactura final' = map f_IdFactura final
     \<and> map f_negocio final' = map f_negocio final"
proof -
  from assms have d: "distinct (map f_IdFactura (filter (is_joined snapshot) final))"
    and f: "final' = sync_rows snapshot final"
    and a: "affected = (if has_description then length (filter (is_joined snapshot) final) else 0)"
    by (auto simp: update_final_from_snapshot_def Let_def split: if_splits)
  have "update_final_from_snapshot has_description final' snapshot
      = Inr (final', count_to_fix final' snapshot, affected)"
    using d a unfolding f
    by (simp add: update_final_from_snapshot_def sync_rows_upd sync_rows_idem
        length_map [of f_IdFactura, symmetric] del: length_map)
  then show ?thesis using f a sync_rows_frame [of snapshot final] by auto
qed

theorem update_final_idempotent_witness:
  "update_final_from_snapshot True [example_final_blank] [example_snapshot]
     = Inr ([example_final_synced], 1, 1)
   \<and> (\<exists>to_fix'. update_final_from_snapshot True [example_final_synced] [example_snapshot]
          = Inr ([example_final_synced], to_fix', 1))
   \<and> [example_final_synced] = sync_rows [example_snapshot] [example_final_blank]"
proof -
  have run: "update_final_from_snapshot True [example_final_blank] [example_snapshot]
     = Inr ([example_final_synced], 1, 1)"
    by (simp add: update_final_from_snapshot_def count_to_fix_def sync_rows_def joined_def
      is_joined_def has_id_def differs_def mirror_def text_differs_def fecha_differs_def
      sql_neq_def cambio_differs_def or_empty_def example_final_synced_def
      example_final_blank_def example_snapshot_def)
  from update_final_idempotent [OF run] run show ?thesis by blast
qed

section \<open>Properties of the validation call\<close>

lemma attempt_retry_iff: "attempt (post k) = Retry e \<longleftrightarrow> retried post k e"
  by (cases "post k")
     (auto simp: attempt_def retried_def caught_def http_payload_def
           split: sum.splits if_splits json.splits)

lemma backoff_Suc: "backoff (Suc i) = backoff i @ [2 * (i + 1)]"
  by (simp add: backoff_def)

lemma call_sunat_from_done:
  assumes "j < n" and "attempt (post j) = Done v"
  shows "i \<le> j \<Longrightarrow> (\<forall>k. i \<le> k \<and> k < j \<longrightarrow> (\<exists>e. attempt (post k) = Retry e)) \<Longrightarrow>
         call_sunat_from post n i last_exc slept
           = (v, slept @ map (\<lambda>k. 2 * (k + 1)) [i..<j], j + 1)"
proof (induction "j - i" arbitrary: i last_exc slept)
  case 0
  then have "i = j" by simp
  then show ?case using assms by (subst call_sunat_from.simps) simp
next
  case (Suc d)
  then have lt: "i < j" by simp
  with Suc.prems obtain e where e: "attempt (post i) = Retry e" by auto
  have "call_sunat_from post n (i + 1) (Some e) (slept @ [2 * (i + 1)])
      = (v, (slept @ [2 * (i + 1)]) @ map (\<lambda>k. 2 * (k + 1)) [i + 1..<j], j + 1)"
    using Suc.hyps(2) lt Suc.prems(2) by (intro Suc.hyps(1)) auto
  moreover have "[i..<j] = i # [i + 1..<j]" using lt by (simp add: upt_conv_Cons)
  ultimately show ?case
    using lt assms(1) e by (subst call_sunat_from.simps) simp
qed

lemma call_sunat_from_exhaust:
  shows "i \<le> n \<Longrightarrow> (\<forall>k. i \<le> k \<and> k < n \<longrightarrow> attempt (post k) = Retry (ex k)) \<Longrightarrow>
         call_sunat_from post n i last_exc slept
           = (Inr (False, JObj [(''error'',
                  JStr (case (if i < n then Some (ex (n - 1)) else last_exc) of
                          None \<Rightarrow> ''unknown'' | Some e \<Rightarrow> exn_text e))]),
              slept @ map (\<lambda>k. 2 * (k + 1)) [i..<n], n)"
proof (induction "n - i" arbitrary: i last_exc slept)
  case 0
  then have "i = n" by simp
  then show ?case by (subst call_sunat_from.simps) simp
next
  case (Suc d)
  then have lt: "i < n" by simp
  with Suc.prems have e: "attempt (post i) = Retry (ex i)" by auto
  have "call_sunat_from post n (i + 1) (Some (ex i)) (slept @ [2 * (i + 1)])
      = (Inr (False, JObj [(''error'',
                  JStr (case (if i + 1 < n then Some (ex (n - 1)) else Some (ex i)) of
                          None \<Rightarrow> ''unknown'' | Some e \<Rightarrow> exn_text e))]),
         (slept @ [2 * (i + 1)]) @ map (\<lambda>k. 2 * (k + 1)) [i + 1..<n], n)"
    using Suc.hyps(2) lt Suc.prems(2) by (intro Suc.hyps(1)) auto
  moreover have "[i..<n] = i # [i + 1..<n]" using lt by (simp add: upt_conv_Cons)
  moreover have "\<not> i + 1 < n \<Longrightarrow> n - 1 = i" using lt by simp
  ultimately show ?case
    using lt e by (subst call_sunat_from.simps) auto
qed

lemma call_sunat_done:
  assumes "\<forall>k<i. \<exists>e. retried post k e" and "i < nat retry_max" and "attempt (post i) = Done v"
  shows "call_sunat retry_max post = (v, backoff i, i + 1)"
  using call_sunat_from_done
      [where post = post and j = i and n = "nat retry_max" and v = v and i = 0
         and last_exc = None and slept = "[]"] assms
  by (simp add: call_sunat_def backoff_def attempt_retry_iff)

lemma call_sunat_exhaust:
  assumes "\<forall>k<nat retry_max. retried post k (ex k)"
  shows "call_sunat retry_max post
     = (Inr (False, JObj [(''error'',
            JStr (if nat retry_max = 0 then ''unknown'' else exn_text (ex (nat retry_max - 1))))]),
        backoff (nat retry_max), nat retry_max)"
  using call_sunat_from_exhaust
      [where post = post and ex = ex and n = "nat retry_max" and i = 0
         and last_exc = None and slept = "[]"] assms
  by (simp add: call_sunat_def backoff_def attempt_retry_iff)


lemma attempt_success_iff:
  "attempt posted = Done (Inr (True, js))
     \<longleftrightarrow> (\<exists>r. posted = Inr r \<and> status_code r = 200 \<and> json_result r = Inr js)"
  by (cases posted)
     (auto simp: attempt_def caught_def split: sum.splits if_splits)

lemma attempt_failure_payload:
  assumes "status_code r \<noteq> 200" and "safe_json r = JObj d"
  shows "attempt (Inr r)
     = Done (Inr (False, JObj (dict_merge [(''http'', JInt (status_code r))] d)))"
  using assms by (simp add: attempt_def http_payload_def)

lemma first_done:
  "\<not> (\<forall>k<n::nat. \<exists>e. attempt (post k) = Retry e) \<Longrightarrow>
   \<exists>j<n. (\<forall>k<j. \<exists>e. attempt (post k) = Retry e) \<and> (\<exists>v. attempt (post j) = Done v)"
proof (induction n)
  case 0
  then show ?case by simp
next
  case (Suc n)
  show ?case
  proof (cases "\<forall>k<n. \<exists>e. attempt (post k) = Retry e")
    case True
    with Suc.prems have "\<not> (\<exists>e. attempt (post n) = Retry e)"
      using less_Suc_eq by auto
    then have "\<exists>v. attempt (post n) = Done v" by (cases "attempt (post n)") auto
    with True show ?thesis by blast
  next
    case False
    from Suc.IH [OF False] show ?thesis using less_Suc_eq by auto
  qed
qed

lemma call_sunat_success_iff:
  "(\<exists>js s a. call_sunat retry_max post = (Inr (True, js), s, a))
     \<longleftrightarrow> (\<exists>j<nat retry_max. (\<forall>k<j. \<exists>e. retried post k e)
            \<and> (\<exists>r js. post j = Inr r \<and> status_code r = 200 \<and> json_result r = Inr js))"
proof
  assume "\<exists>js s a. call_sunat retry_max post = (Inr (True, js), s, a)"
  then obtain js s a where ok: "call_sunat retry_max post = (Inr (True, js), s, a)" by blast
  show "\<exists>j<nat retry_max. (\<forall>k<j. \<exists>e. retried post k e)
            \<and> (\<exists>r js. post j = Inr r \<and> status_code r = 200 \<and> json_result r = Inr js)"
  proof (cases "\<forall>k<nat retry_max. \<exists>e. attempt (post k) = Retry e")
    case True
    then have "\<forall>k<nat retry_max. \<exists>e. retried post k e" by (simp add: attempt_retry_iff)
    then obtain ex where "\<forall>k<nat retry_max. retried post k (ex k)" by metis
    from call_sunat_exhaust [OF this] ok show ?thesis by simp
  next
    case False
    from first_done [OF False] obtain j v where j: "j < nat retry_max"
      "\<forall>k<j. \<exists>e. attempt (post k) = Retry e" "attempt (post j) = Done v" by blast
    then have r: "\<forall>k<j. \<exists>e. retried post k e" by (simp add: attempt_retry_iff)
    from call_sunat_done [OF r j(1) j(3)] ok have "v = Inr (True, js)" by simp
    then show ?thesis using j(1) j(3) r attempt_success_iff [of "post j" js] by blast
  qed
next
  assume "\<exists>j<nat retry_max. (\<forall>k<j. \<exists>e. retried post k e)
            \<and> (\<exists>r js. post j = Inr r \<and> status_code r = 200 \<and> json_result r = Inr js)"
  then obtain j r js where j: "j < nat retry_max" "\<forall>k<j. \<exists>e. retried post k e"
    "post j = Inr r" "status_code r = 200" "json_result r = Inr js" by blast
  then have "attempt (post j) = Done (Inr (True, js))" by (simp add: attempt_success_iff)
  from call_sunat_done [OF j(2) j(1) this]
  show "\<exists>js s a. call_sunat retry_max post = (Inr (True, js), s, a)" by blast
qed

lemma update_fresh: "k \<notin> fst ` set al \<Longrightarrow> AList.update k v al = al @ [(k, v)]"
  by (induction al) auto

lemma dict_merge_fresh:
  "distinct (map fst d) \<Longrightarrow> fst ` set d \<inter> fst ` set base = {} \<Longrightarrow> dict_merge base d = base @ d"
proof (induction d arbitrary: base)
  case Nil
  then show ?case by (simp add: dict_merge_def)
next
  case (Cons kv d)
  have "AList.update (fst kv) (snd kv) base = base @ [kv]"
    using Cons.prems(2) by (simp add: update_fresh)
  moreover have "dict_merge (base @ [kv]) d = (base @ [kv]) @ d"
    using Cons.prems by (intro Cons.IH) auto
  ultimately show ?case by (simp add: dict_merge_def)
qed


text \<open>
  A status other than 200 whose body is JSON but not an object: unpacking it raises
  \<^verbatim>\<open>TypeError\<close>, which the \<^verbatim>\<open>except\<close> clause does not catch, so \<^verbatim>\<open>call_sunat\<close> raises at the
  first attempt instead of returning a failure payload.
\<close>

lemma call_sunat_non_object_body:
  "call_sunat 3 post_500_list = (Inl (Exn TypeError (quoted ''list'' @ '' object is not a mapping'')), [], 1)"
  by (simp add: call_sunat_def call_sunat_from.simps attempt_def post_500_list_def
      safe_json_def http_payload_def caught_def)

text \<open>
  C6, as the claim states it, fails: a response with status 200 is not always a success. When
  the body of a 200 response does not decode, \<^verbatim>\<open>r.json()\<close> raises inside the \<^verbatim>\<open>try\<close> block.
  If the exception is a \<^verbatim>\<open>RequestException\<close> the attempt is retried like a transport failure
  and, with \<^verbatim>\<open>RETRY_MAX = 1\<close>, the call ends in a failure payload; if it is not, \<^verbatim>\<open>call_sunat\<close>
  raises it.
\<close>

theorem call_sunat_status_200_counterexample:
  "post_ok_garbage RequestException 0
     = Inr \<lparr>status_code = 200, json_result = Inl (decode_exn RequestException),
            text_of = ''<html>''\<rparr>
   \<and> call_sunat 1 (post_ok_garbage RequestException)
     = (Inr (False, JObj [(''error'', JStr ''Expecting value: line 1 column 1 (char 0)'')]),
        [2], 1)
   \<and> call_sunat 1 (post_ok_garbage ValueError) = (Inl (decode_exn ValueError), [], 1)"
  by (simp add: call_sunat_def call_sunat_from.simps attempt_def post_ok_garbage_def
      decode_exn_def caught_def)

text \<open>
  C6, amended. Let the attempts \<open>0, \<dots>, i - 1\<close> be retried: \<^verbatim>\<open>requests.post\<close> raised a
  \<^verbatim>\<open>RequestException\<close>, or answered 200 with a body whose decoding raised one. Then:
  \<^item> if attempt \<open>i\<close> is within \<^verbatim>\<open>RETRY_MAX\<close> and answers 200 with a body that decodes, the call
    returns success with the decoded body;
  \<^item> if attempt \<open>i\<close> is within \<^verbatim>\<open>RETRY_MAX\<close> and answers another status with a body that
    \<^verbatim>\<open>safe_json\<close> turns into a dict, the call returns the failure payload: \<^verbatim>\<open>http\<close> with the
    status code, merged with the entries of that dict;
  \<^item> if \<open>i\<close> is \<^verbatim>\<open>RETRY_MAX\<close>, the call returns the failure payload with the text of the last
    exception (\<^verbatim>\<open>unknown\<close> when no attempt was made).
  In each case the program has slept 2, 4, \<dots>, \<open>2 * i\<close> seconds, one sleep after each retried
  attempt, and has made no attempt beyond the one that decided. The call returns success
  exactly when some attempt within \<^verbatim>\<open>RETRY_MAX\<close>, with every attempt before it retried,
  answers 200 with a body that decodes. \<^verbatim>\<open>safe_json\<close> is the decoded body, or the first 1000
  characters of the text under \<^verbatim>\<open>raw\<close>; merging a dict that has no \<^verbatim>\<open>http\<close> key puts the
  status code in front of its entries.
\<close>

theorem call_sunat_outcomes:
  assumes "\<forall>k<i. retried post k (ex k)"
  shows "(i < nat retry_max \<and> post i = Inr r \<and> status_code r = 200 \<and> json_result r = Inr js
            \<longrightarrow> call_sunat retry_max post = (Inr (True, js), backoff i, i + 1))
     \<and> (i < nat retry_max \<and> post i = Inr r \<and> status_code r \<noteq> 200 \<and> safe_json r = JObj d
            \<longrightarrow> call_sunat retry_max post
                 = (Inr (False, JObj (dict_merge [(''http'', JInt (status_code r))] d)),
                    backoff i, i + 1))
     \<and> (i = nat retry_max
            \<longrightarrow> call_sunat retry_max post
                 = (Inr (False, JObj [(''error'',
                       JStr (if i = 0 then ''unknown'' else exn_text (ex (i - 1))))]),
                    backoff i, i))
     \<and> ((\<exists>js' s a. call_sunat retry_max post = (Inr (True, js'), s, a))
          \<longleftrightarrow> (\<exists>j<nat retry_max. (\<forall>k<j. \<exists>e. retried post k e)
                 \<and> (\<exists>r' js'. post j = Inr r' \<and> status_code r' = 200
                              \<and> json_result r' = Inr js')))
     \<and> (json_result r = Inl e \<longrightarrow> safe_json r = JObj [(''raw'', JStr (take 1000 (text_of r)))])
     \<and> (json_result r = Inr js \<longrightarrow> safe_json r = js)
     \<and> (distinct (map fst d) \<and> ''http'' \<notin> fst ` set d
            \<longrightarrow> dict_merge [(''http'', v)] d = (''http'', v) # d)"
proof -
  have prior: "\<forall>k<i. \<exists>e. retried post k e" using assms by blast
  have a: "call_sunat retry_max post = (Inr (True, js), backoff i, i + 1)"
    if "i < nat retry_max" "post i = Inr r" "status_code r = 200" "json_result r = Inr js"
  proof -
    have "attempt (post i) = Done (Inr (True, js))"
      using that by (simp add: attempt_success_iff)
    from call_sunat_done [OF prior that(1) this] show ?thesis .
  qed
  have b: "call_sunat retry_max post
      = (Inr (False, JObj (dict_merge [(''http'', JInt (status_code r))] d)), backoff i, i + 1)"
    if "i < nat retry_max" "post i = Inr r" "status_code r \<noteq> 200" "safe_json r = JObj d"
  proof -
    have "attempt (post i)
        = Done (Inr (False, JObj (dict_merge [(''http'', JInt (status_code r))] d)))"
      using that by (simp add: attempt_failure_payload)
    from call_sunat_done [OF prior that(1) this] show ?thesis .
  qed
  have c: "call_sunat retry_max post
      = (Inr (False, JObj [(''error'',
            JStr (if i = 0 then ''unknown'' else exn_text (ex (i - 1))))]), backoff i, i)"
    if "i = nat retry_max"
    using call_sunat_exhaust [of retry_max post ex] assms that by simp
  have m: "dict_merge [(''http'', v)] d = (''http'', v) # d"
    if "distinct (map fst d)" "''http'' \<notin> fst ` set d"
    using dict_merge_fresh [of d "[(''http'', v)]"] that by simp
  show ?thesis
    using a b c m call_sunat_success_iff [of retry_max post]
    by (simp add: safe_json_def)
qed

theorem call_sunat_outcomes_witness:
  "retried post_third_time 0 timeout_exn \<and> retried post_third_time 1 timeout_exn
   \<and> call_sunat 3 post_third_time = (Inr (True, estado3), [2, 4], 3)
   \<and> retried post_timeout 0 timeout_exn \<and> retried post_timeout 1 timeout_exn
   \<and> retried post_timeout 2 timeout_exn
   \<and> call_sunat 3 post_timeout
       = (Inr (False, JObj [(''error'', JStr ''Read timed out.'')]), [2, 4, 6], 3)
   \<and> call_sunat 3 post_404_html
       = (Inr (False, JObj [(''http'', JInt 404), (''raw'', JStr ''<html>'')]), [], 1)"
proof -
  have h2: "\<forall>k<2. retried post_third_time k ((\<lambda>_. timeout_exn) k)"
    by (simp add: retried_def post_third_time_def timeout_exn_def)
  have h3: "\<forall>k<3. retried post_timeout k ((\<lambda>_. timeout_exn) k)"
    by (simp add: retried_def post_timeout_def timeout_exn_def)
  have h0: "\<forall>k<0. retried post_404_html k ((\<lambda>_. timeout_exn) k)" by simp
  let ?ok = "\<lparr>status_code = 200, json_result = Inr estado3, text_of = ''{...}''\<rparr>"
  let ?nf = "\<lparr>status_code = 404, json_result = Inl (decode_exn RequestException),
               text_of = ''<html>''\<rparr>"
  have b2: "backoff 2 = [2, 4]" and b3: "backoff 3 = [2, 4, 6]" and b0: "backoff 0 = []"
    by (simp_all add: backoff_def upt_rec numeral_2_eq_2 numeral_3_eq_3)
  from call_sunat_outcomes [OF h2, of 3 ?ok estado3 "[]" "decode_exn ValueError" JNull]
  have one: "call_sunat 3 post_third_time = (Inr (True, estado3), [2, 4], 3)"
    by (simp add: post_third_time_def b2)
  from call_sunat_outcomes [OF h3, of 3 ?ok estado3 "[]" "decode_exn ValueError" JNull]
  have two: "call_sunat 3 post_timeout
       = (Inr (False, JObj [(''error'', JStr ''Read timed out.'')]), [2, 4, 6], 3)"
    by (simp add: timeout_exn_def b3)
  from call_sunat_outcomes
         [OF h0, of 3 ?nf JNull "[(''raw'', JStr ''<html>'')]" "decode_exn RequestException"
            "JInt 404"]
  have three: "call_sunat 3 post_404_html
       = (Inr (False, JObj [(''http'', JInt 404), (''raw'', JStr ''<html>'')]), [], 1)"
    by (simp add: post_404_html_def b0)
  show ?thesis using h2 h3 one two three by simp
qed

section \<open>Properties of the token cache\<close>

lemma timedelta_Inr: "timedelta n = Inr d \<longleftrightarrow> timedelta_ok n \<and> d = 1000000 * n"
  unfolding timedelta_def timedelta_ok_def Let_def
  by (auto split: if_splits)

lemma timedelta_Inl: "timedelta n = Inl e \<Longrightarrow> \<not> timedelta_ok n"
  unfolding timedelta_def timedelta_ok_def Let_def
  by (auto split: if_splits)

lemma datetime_add_Inl: "datetime_add t d = Inl e \<Longrightarrow> \<not> datetime_ok (t + d)"
  by (auto simp: datetime_add_def split: if_splits)

lemma timedelta_kind: "timedelta n = Inl e \<Longrightarrow> exn_kind e = OverflowError"
  by (auto simp: timedelta_def Let_def split: if_splits)

lemma datetime_add_Inr: "datetime_add t d = Inr u \<longleftrightarrow> datetime_ok (t + d) \<and> u = t + d"
  by (auto simp: datetime_add_def)

lemma datetime_add_kind: "datetime_add t d = Inl e \<Longrightarrow> exn_kind e = OverflowError"
  by (auto simp: datetime_add_def split: if_splits)

lemma int_of_str_kind: "int_of_str s = Inl e \<Longrightarrow> exn_kind e = ValueError"
  by (auto simp: int_of_str_def Let_def int_limit_error_def invalid_literal_def
      split: if_splits option.splits)

lemma py_int_kind:
  "py_int v = Inl e \<Longrightarrow> exn_kind e \<in> {TypeError, ValueError, OverflowError}"
proof (cases v)
  case (JFloat f)
  then show "py_int v = Inl e \<Longrightarrow> ?thesis" by (cases f) auto
next
  case (JStr s)
  then show "py_int v = Inl e \<Longrightarrow> ?thesis" using int_of_str_kind [of s e] by simp
qed (auto simp: int_type_error_def)

text \<open>
  The renewal lines return exactly for a dict with \<^verbatim>\<open>access_token\<close> and a lifetime within
  the range of the clock; otherwise they raise, never a \<^verbatim>\<open>RequestException\<close>, and the expiry
  in the cache stays as it was.
\<close>

lemma renew_Inr:
  "renew env st js = (Inr (tok, t), st') \<longleftrightarrow>
     (\<exists>kvs n. js = JObj kvs \<and> map_of kvs ''access_token'' = Some tok
        \<and> py_int (case map_of kvs ''expires_in'' of None \<Rightarrow> JInt 0 | Some v \<Rightarrow> v) = Inr n
        \<and> timedelta_ok n \<and> datetime_ok (now_renew env + 1000000 * n)
        \<and> t = now_renew env + 1000000 * n
        \<and> st' = st\<lparr>cached_token := tok, token_exp := now_renew env + 1000000 * n\<rparr>)"
  by (auto simp: renew_def Let_def timedelta_Inr datetime_add_Inr
      dest: timedelta_Inl datetime_add_Inl
      split: json.splits option.splits sum.splits)

lemma renew_Inl:
  assumes "renew env st js = (Inl e, st')"
  shows "exn_kind e \<in> {TypeError, KeyError, ValueError, OverflowError}"
    and "token_exp st' = token_exp st"
    and "st' = st \<or> (\<exists>tok. st' = st\<lparr>cached_token := tok\<rparr>)"
proof -
  show "exn_kind e \<in> {TypeError, KeyError, ValueError, OverflowError}"
    using assms py_int_kind timedelta_kind datetime_add_kind
    by (fastforce simp: renew_def Let_def subscript_error_def
        split: json.splits option.splits sum.splits)
  show "token_exp st' = token_exp st"
    using assms
    by (auto simp: renew_def Let_def split: json.splits option.splits sum.splits)
  show "st' = st \<or> (\<exists>tok. st' = st\<lparr>cached_token := tok\<rparr>)"
    using assms
    by (auto simp: renew_def Let_def split: json.splits option.splits sum.splits)
qed

lemma renew_not_request:
  "renew env st js = (Inl e, st') \<Longrightarrow> exn_kind e \<noteq> RequestException"
  using renew_Inl(1) [of env st js e st'] by auto

lemma token_attempt_fail_iff:
  "token_attempt env st c = TokenFail err \<longleftrightarrow> combo_fails env c err"
proof (cases c)
  case (fields ep auth_mode sc)
  show ?thesis
  proof (cases "token_try env ep sc auth_mode")
    case (Inl e)
    then show ?thesis
      using fields by (auto simp: token_attempt_def combo_fails_def token_caught_def)
  next
    case (Inr r)
    show ?thesis
    proof (cases "status_code r = 200")
      case False
      then show ?thesis
        using fields Inr
        by (auto simp: token_attempt_def combo_fails_def token_caught_def py_str_int_def
            http_error_text_def limit_error_def)
    next
      case True
      show ?thesis
      proof (cases "json_result r")
        case (Inl e)
        then show ?thesis
          using fields Inr True
          by (auto simp: token_attempt_def combo_fails_def token_caught_def)
      next
        case js: (Inr js)
        obtain res st' where rn: "renew env st js = (res, st')" by (cases "renew env st js")
        show ?thesis
          using fields Inr True js rn renew_not_request [of env st js _ st']
          by (cases res) (auto simp: token_attempt_def combo_fails_def token_caught_def)
      qed
    qed
  qed
qed

lemma token_attempt_answers:
  assumes "combo_answers env c js"
  shows "token_attempt env st c = TokenDone (fst (renew env st js)) (snd (renew env st js))"
proof -
  obtain res st' where rn: "renew env st js = (res, st')" by (cases "renew env st js")
  show ?thesis
    using assms rn renew_not_request [of env st js _ st']
    by (cases c; cases res)
       (auto simp: combo_answers_def token_attempt_def token_caught_def split: sum.splits)
qed

lemma token_attempt_raises:
  assumes "combo_raises env c e"
  shows "token_attempt env st c = TokenDone (Inl e) st"
  using assms
  by (cases c)
     (auto simp: combo_raises_def token_attempt_def token_caught_def py_str_int_def
        limit_error_def split: sum.splits if_splits)

lemma combo_grants_answers:
  "combo_grants env c tok n \<longleftrightarrow>
     (\<exists>js. combo_answers env c js
        \<and> renew env st js
            = (Inr (tok, now_renew env + 1000000 * n),
               st\<lparr>cached_token := tok, token_exp := now_renew env + 1000000 * n\<rparr>))"
  by (cases c)
     (auto simp: combo_grants_def combo_answers_def renew_Inr split: sum.splits json.splits)

lemma token_attempt_grants:
  assumes "combo_grants env c tok n"
  shows "token_attempt env st c
     = TokenDone (Inr (tok, now_renew env + 1000000 * n))
         (st\<lparr>cached_token := tok, token_exp := now_renew env + 1000000 * n\<rparr>)"
proof -
  from assms obtain js where "combo_answers env c js"
    "renew env st js
       = (Inr (tok, now_renew env + 1000000 * n),
          st\<lparr>cached_token := tok, token_exp := now_renew env + 1000000 * n\<rparr>)"
    using combo_grants_answers [of env c tok n st] by blast
  with token_attempt_answers [of env c js st] show ?thesis by simp
qed

text \<open>Every combination fails, answers or raises.\<close>

lemma combo_cases:
  "(\<exists>err. combo_fails env c err) \<or> (\<exists>js. combo_answers env c js) \<or> (\<exists>e. combo_raises env c e)"
proof (cases c)
  case (fields ep auth_mode sc)
  show ?thesis
  proof (cases "token_try env ep sc auth_mode")
    case (Inl e)
    then show ?thesis
      using fields by (cases "exn_kind e = RequestException")
        (simp_all add: combo_fails_def combo_raises_def)
  next
    case (Inr r)
    show ?thesis
    proof (cases "status_code r = 200")
      case False
      then show ?thesis
        using fields Inr by (cases "long_int (status_code r)")
          (simp_all add: combo_fails_def combo_raises_def)
    next
      case True
      show ?thesis
      proof (cases "json_result r")
        case (Inl e)
        then show ?thesis
          using fields Inr True by (cases "exn_kind e = RequestException")
            (simp_all add: combo_fails_def combo_raises_def)
      next
        case js: (Inr js)
        then have "combo_answers env c js"
          using fields Inr True by (simp add: combo_answers_def)
        then show ?thesis by blast
      qed
    qed
  qed
qed

lemma token_search_done:
  assumes "token_attempt env st c = TokenDone v st'"
  shows "list_all2 (combo_fails env) pre errs \<Longrightarrow>
         token_search env st (pre @ c # rest) last_err tried = (v, st', tried @ pre @ [c])"
proof (induction pre arbitrary: errs last_err tried)
  case Nil
  then show ?case using assms by simp
next
  case (Cons p pre)
  then obtain err errs' where e: "errs = err # errs'" "combo_fails env p err"
    "list_all2 (combo_fails env) pre errs'"
    by (auto simp: list_all2_Cons1)
  then have "token_attempt env st p = TokenFail err" by (simp add: token_attempt_fail_iff)
  then show ?case using Cons.IH [OF e(3)] by simp
qed

lemma token_search_exhaust:
  "list_all2 (combo_fails env) cs errs \<Longrightarrow>
   token_search env st cs last_err tried
     = (Inl (Exn RuntimeError
          (exhausted_text (case (if errs = [] then last_err else Some (last errs)) of
                             None \<Rightarrow> ''None'' | Some s \<Rightarrow> s))),
        st, tried @ cs)"
proof (induction cs arbitrary: errs last_err tried)
  case Nil
  then show ?case by (simp add: exhausted_text_def)
next
  case (Cons c cs)
  then obtain err errs' where e: "errs = err # errs'" "combo_fails env c err"
    "list_all2 (combo_fails env) cs errs'"
    by (auto simp: list_all2_Cons1)
  then have "token_attempt env st c = TokenFail err" by (simp add: token_attempt_fail_iff)
  then show ?case using Cons.IH [OF e(3), of "Some err" "tried @ [c]"] e(1) by simp
qed

lemma reachable_creds:
  "reachable cfg st \<Longrightarrow> truthy (cached_token st) \<Longrightarrow> creds_ok cfg"
proof (induction rule: reachable.induct)
  case (at_import t0)
  then show ?case by simp
next
  case (after_call st env v st' tried)
  show ?case
  proof (cases "creds_ok cfg")
    case True
    then show ?thesis .
  next
    case False
    with after_call.hyps(2) have "st' = st"
      by (auto simp: get_token_def creds_ok_def Let_def)
    with after_call show ?thesis by simp
  qed
qed

lemma length_search_space: "length (search_space cid) = 12"
  by (simp add: search_space_def endpoints_def auth_modes_def scopes_def)

text \<open>What the renewal lines do with the body of a combination that answers.\<close>

lemma renew_outcome:
  assumes "combo_answers env c js"
  shows "case renew env st js of
           (Inr (tok', t), st') \<Rightarrow>
             \<exists>n'. combo_grants env c tok' n' \<and> t = now_renew env + 1000000 * n'
                   \<and> st' = st\<lparr>cached_token := tok', token_exp := t\<rparr>
         | (Inl e', st') \<Rightarrow>
             (\<forall>tok' n'. \<not> combo_grants env c tok' n')
             \<and> exn_kind e' \<in> {TypeError, KeyError, ValueError, OverflowError}
             \<and> token_exp st' = token_exp st
             \<and> (st' = st \<or> (\<exists>tok'. st' = st\<lparr>cached_token := tok'\<rparr>))"
proof -
  obtain res st' where rn: "renew env st js = (res, st')" by (cases "renew env st js")
  have one: "js' = js" if "combo_answers env c js'" for js'
    using assms that by (cases c) (auto simp: combo_answers_def split: sum.splits)
  show ?thesis
  proof (cases res)
    case (Inl e')
    have "\<not> combo_grants env c tok' n'" for tok' n'
      using combo_grants_answers [of env c tok' n' st] one rn Inl by auto
    then show ?thesis
      using rn Inl renew_Inl [of env st js e' st'] by simp
  next
    case (Inr p)
    obtain tok' t where p: "p = (tok', t)" by (cases p)
    from rn Inr p renew_Inr [of env st js tok' t st'] obtain n' where
      n': "t = now_renew env + 1000000 * n'"
      "st' = st\<lparr>cached_token := tok', token_exp := now_renew env + 1000000 * n'\<rparr>"
      by auto
    then have "combo_grants env c tok' n'"
      using combo_grants_answers [of env c tok' n' st] assms rn Inr p by auto
    then show ?thesis using rn Inr p n' by auto
  qed
qed


text \<open>
  C7, as the claim states it, fails: with no valid cached token the search space is not
  always tried. When \<^verbatim>\<open>SUNAT_CLIENT_SECRET\<close> is not set, \<^verbatim>\<open>get_token\<close> raises before the cache
  check and before any request, although the server would have granted a token; the error
  carries no last error of the search.
\<close>

theorem get_token_missing_secret_counterexample:
  "get_token no_secret_config granting_env initial_token_state
     = (Inl (Exn RuntimeError ''Faltan SUNAT_CLIENT_ID o SUNAT_CLIENT_SECRET en el .env''),
        initial_token_state, [])"
  by (simp add: get_token_def no_secret_config_def stripped_def or_empty_def strip_def
      strip_with_def)

text \<open>
  C7, amended. In every state that the cache can reach, a call that finds a non-empty cached
  token with more than 60 seconds of validity left returns the cached pair, issues no request
  and leaves the state as it is. When client id or secret is missing (empty after stripping)
  the call raises at once, without a request. Otherwise, with no such cached token, the
  twelve combinations (two endpoints, for each the two credential transmission modes, for
  each the three scopes) are tried in that order, and each of them fails, answers or raises:
  \<^item> a combination fails when its request raises a \<^verbatim>\<open>RequestException\<close>, answers a status
    other than 200, or answers 200 with a body whose decoding raises a \<^verbatim>\<open>RequestException\<close>;
    the search then goes on;
  \<^item> a combination answers when it returns status 200 with a body that decodes. The call
    stops at the first combination that answers, having tried exactly the combinations up to
    that one, with the outcome of the renewal lines on the decoded body: when the body is a
    dict with \<^verbatim>\<open>access_token\<close> and a lifetime \<^verbatim>\<open>expires_in\<close> that converts to an int within
    the range of the clock, the token and the expiry computed from the lifetime are stored
    and returned; otherwise the call raises \<^verbatim>\<open>TypeError\<close>, \<^verbatim>\<open>KeyError\<close>, \<^verbatim>\<open>ValueError\<close> or
    \<^verbatim>\<open>OverflowError\<close>, and the cache keeps its expiry and holds either what it held or the
    new token;
  \<^item> a combination raises when its request, or the decoding of its body with status 200,
    raises an exception that is not a \<^verbatim>\<open>RequestException\<close>; the call stops there with that
    exception and the state as it is;
  \<^item> if all combinations fail, the call raises the error that carries the last error text,
    has tried them all and leaves the state as it is.
\<close>

theorem get_token_behaviour:
  "(reachable cfg st \<and> cache_valid env st
      \<longrightarrow> get_token cfg env st = (Inr (cached_token st, token_exp st), st, []))
   \<and> (\<not> creds_ok cfg
      \<longrightarrow> get_token cfg env st
           = (Inl (Exn RuntimeError ''Faltan SUNAT_CLIENT_ID o SUNAT_CLIENT_SECRET en el .env''),
              st, []))
   \<and> (creds_ok cfg \<and> \<not> cache_valid env st
       \<and> search_space (stripped (CLIENT_ID cfg)) = pre @ c # rest
       \<and> list_all2 (combo_fails env) pre errs \<and> combo_grants env c tok n
      \<longrightarrow> get_token cfg env st
           = (Inr (tok, now_renew env + 1000000 * n),
              st\<lparr>cached_token := tok, token_exp := now_renew env + 1000000 * n\<rparr>,
              pre @ [c]))
   \<and> (creds_ok cfg \<and> \<not> cache_valid env st
       \<and> search_space (stripped (CLIENT_ID cfg)) = pre @ c # rest
       \<and> list_all2 (combo_fails env) pre errs \<and> combo_answers env c js
      \<longrightarrow> get_token cfg env st = (fst (renew env st js), snd (renew env st js), pre @ [c])
          \<and> (case renew env st js of
                (Inr (tok', t), st') \<Rightarrow>
                  \<exists>n'. combo_grants env c tok' n' \<and> t = now_renew env + 1000000 * n'
                        \<and> st' = st\<lparr>cached_token := tok', token_exp := t\<rparr>
              | (Inl e', st') \<Rightarrow>
                  (\<forall>tok' n'. \<not> combo_grants env c tok' n')
                  \<and> exn_kind e' \<in> {TypeError, KeyError, ValueError, OverflowError}
                  \<and> token_exp st' = token_exp st
                  \<and> (st' = st \<or> (\<exists>tok'. st' = st\<lparr>cached_token := tok'\<rparr>))))
   \<and> (creds_ok cfg \<and> \<not> cache_valid env st
       \<and> search_space (stripped (CLIENT_ID cfg)) = pre @ c # rest
       \<and> list_all2 (combo_fails env) pre errs \<and> combo_raises env c e
      \<longrightarrow> get_token cfg env st = (Inl e, st, pre @ [c]))
   \<and> (creds_ok cfg \<and> \<not> cache_valid env st
       \<and> list_all2 (combo_fails env) (search_space (stripped (CLIENT_ID cfg))) errs
      \<longrightarrow> get_token cfg env st
           = (Inl (Exn RuntimeError (exhausted_text (last errs))), st,
              search_space (stripped (CLIENT_ID cfg))))
   \<and> ((\<exists>err. combo_fails env c err) \<or> (\<exists>js. combo_answers env c js)
       \<or> (\<exists>e. combo_raises env c e))
   \<and> length (search_space (stripped (CLIENT_ID cfg))) = 12"
proof -
  have a: "get_token cfg env st = (Inr (cached_token st, token_exp st), st, [])"
    if "reachable cfg st" "cache_valid env st"
  proof -
    have "creds_ok cfg" using that reachable_creds by (simp add: cache_valid_def)
    then show ?thesis
      using that(2) by (simp add: get_token_def creds_ok_def cache_valid_def Let_def)
  qed
  have b: "get_token cfg env st
      = (Inl (Exn RuntimeError ''Faltan SUNAT_CLIENT_ID o SUNAT_CLIENT_SECRET en el .env''),
         st, [])"
    if "\<not> creds_ok cfg"
    using that by (auto simp: get_token_def creds_ok_def Let_def)
  have search: "get_token cfg env st
      = token_search env st (search_space (stripped (CLIENT_ID cfg))) None []"
    if "creds_ok cfg" "\<not> cache_valid env st"
    using that by (auto simp: get_token_def creds_ok_def cache_valid_def Let_def)
  have stop: "get_token cfg env st = (v, st', pre @ [c])"
    if "creds_ok cfg" "\<not> cache_valid env st"
      "search_space (stripped (CLIENT_ID cfg)) = pre @ c # rest"
      "list_all2 (combo_fails env) pre errs" "token_attempt env st c = TokenDone v st'"
    for v st'
    using search [OF that(1,2)] that(3)
      token_search_done [OF that(5) that(4), of rest None "[]"]
    by simp
  have c: "get_token cfg env st
      = (Inr (tok, now_renew env + 1000000 * n),
         st\<lparr>cached_token := tok, token_exp := now_renew env + 1000000 * n\<rparr>, pre @ [c])"
    if "creds_ok cfg" "\<not> cache_valid env st"
      "search_space (stripped (CLIENT_ID cfg)) = pre @ c # rest"
      "list_all2 (combo_fails env) pre errs" "combo_grants env c tok n"
    using stop [OF that(1-4) token_attempt_grants [OF that(5)]] .
  have d: "get_token cfg env st = (fst (renew env st js), snd (renew env st js), pre @ [c])"
    if "creds_ok cfg" "\<not> cache_valid env st"
      "search_space (stripped (CLIENT_ID cfg)) = pre @ c # rest"
      "list_all2 (combo_fails env) pre errs" "combo_answers env c js"
    using stop [OF that(1-4) token_attempt_answers [OF that(5)]] .
  have f: "get_token cfg env st = (Inl e, st, pre @ [c])"
    if "creds_ok cfg" "\<not> cache_valid env st"
      "search_space (stripped (CLIENT_ID cfg)) = pre @ c # rest"
      "list_all2 (combo_fails env) pre errs" "combo_raises env c e"
    using stop [OF that(1-4) token_attempt_raises [OF that(5)]] .
  have g: "get_token cfg env st
      = (Inl (Exn RuntimeError (exhausted_text (last errs))), st,
         search_space (stripped (CLIENT_ID cfg)))"
    if "creds_ok cfg" "\<not> cache_valid env st"
      "list_all2 (combo_fails env) (search_space (stripped (CLIENT_ID cfg))) errs"
  proof -
    have "length errs = 12"
      using that(3) length_search_space [of "stripped (CLIENT_ID cfg)"]
      by (simp add: list_all2_lengthD [symmetric])
    then have "errs \<noteq> []" by auto
    then show ?thesis
      using search [OF that(1,2)] token_search_exhaust [OF that(3), of st None "[]"] by simp
  qed
  show ?thesis
    using a b c d f g renew_outcome [of env c js st] combo_cases [of env c]
      length_search_space [of "stripped (CLIENT_ID cfg)"]
    by (intro conjI impI) (simp_all only: , blast+)
qed

text \<open>
  Five servers and the configured client \<^verbatim>\<open>abc\<close>. The first grants a token at the fourth
  combination: the call returns it after four requests, and the next call, within its
  lifetime, returns it from the cache without a request. The second refuses every request:
  after all twelve the call raises. The third answers the first request with \<^verbatim>\<open>{}\<close>, the
  fourth with a token whose lifetime is the text \<^verbatim>\<open>soon\<close>: the call raises there, after one
  request, \<^verbatim>\<open>KeyError\<close> with the cache as it was and \<^verbatim>\<open>ValueError\<close> with the new token in the
  cache. The request to the fifth raises an exception of another class, which leaves the call.
\<close>

theorem get_token_behaviour_witness:
  "creds_ok example_config
   \<and> \<not> cache_valid granting_env initial_token_state
   \<and> get_token example_config granting_env initial_token_state
       = (Inr (JStr ''tok'', 3600002000), fresh_token_state, take 4 (search_space ''abc''))
   \<and> reachable example_config fresh_token_state
   \<and> cache_valid refusing_env fresh_token_state
   \<and> get_token example_config refusing_env fresh_token_state
       = (Inr (JStr ''tok'', 3600002000), fresh_token_state, [])
   \<and> (\<exists>err. get_token example_config refusing_env initial_token_state
          = (Inl (Exn RuntimeError (exhausted_text err)), initial_token_state,
             search_space ''abc''))
   \<and> get_token example_config keyless_env initial_token_state
       = (Inl (Exn KeyError (quoted ''access_token'')), initial_token_state,
          take 1 (search_space ''abc''))
   \<and> get_token example_config vague_env initial_token_state
       = (Inl (invalid_literal ''soon''), initial_token_state\<lparr>cached_token := JStr ''tok''\<rparr>,
          take 1 (search_space ''abc''))
   \<and> get_token example_config crashing_env initial_token_state
       = (Inl (Exn OtherException ''out of memory''), initial_token_state,
          take 1 (search_space ''abc''))"
proof -
  have cid: "stripped (CLIENT_ID example_config) = ''abc''"
    by (simp add: stripped_def example_config_def or_empty_def strip_def strip_with_def
        is_space_def)
  have creds: "creds_ok example_config"
    by (simp add: creds_ok_def stripped_def example_config_def or_empty_def strip_def
        strip_with_def is_space_def)
  have cold: "\<not> cache_valid env initial_token_state" for env
    by (simp add: cache_valid_def initial_token_state_def)
  define pre where "pre = take 3 (search_space ''abc'')"
  define c where "c = search_space ''abc'' ! 3"
  define rest where "rest = drop 4 (search_space ''abc'')"
  define c0 where "c0 = search_space ''abc'' ! 0"
  define rest0 where "rest0 = drop 1 (search_space ''abc'')"
  define r401 where
    "r401 = \<lparr>status_code = 401, json_result = Inr (JObj []), text_of = ''denied''\<rparr>"
  have split: "search_space (stripped (CLIENT_ID example_config)) = pre @ c # rest"
    unfolding cid pre_def c_def rest_def
    by (simp add: search_space_def endpoints_def auth_modes_def scopes_def)
  have split0: "search_space (stripped (CLIENT_ID example_config)) = [] @ c0 # rest0"
    unfolding cid c0_def rest0_def
    by (simp add: search_space_def endpoints_def auth_modes_def scopes_def)
  have short: "\<not> long_int 401"
    using short_int_power [of 401 3] by (simp add: max_str_digits_def)
  have fails: "combo_fails env x (http_error_text x r401)"
    if "token_try env (fst x) (snd (snd x)) (fst (snd x)) = Inr r401" for env x
    using that short by (cases x) (simp add: combo_fails_def r401_def)
  have pre_fails: "list_all2 (combo_fails granting_env) pre (map (\<lambda>x. http_error_text x r401) pre)"
    unfolding pre_def
    using short
    by (simp add: search_space_def endpoints_def auth_modes_def scopes_def combo_fails_def
        granting_env_def r401_def)
  have all_fail: "list_all2 (combo_fails refusing_env) (search_space (stripped (CLIENT_ID example_config)))
      (map (\<lambda>x. http_error_text x r401) (search_space (stripped (CLIENT_ID example_config))))"
    unfolding list_all2_map2
  proof (intro list_all2_all_nthI)
    fix k
    show "combo_fails refusing_env (search_space (stripped (CLIENT_ID example_config)) ! k)
       (http_error_text (search_space (stripped (CLIENT_ID example_config)) ! k) r401)"
      by (rule fails) (simp add: refusing_env_def r401_def)
  qed simp
  have grants: "combo_grants granting_env c (JStr ''tok'') 3600"
    unfolding c_def
    by (simp add: search_space_def endpoints_def auth_modes_def scopes_def granting_env_def
        combo_grants_def timedelta_ok_def datetime_ok_def)
  from get_token_behaviour
         [where cfg = example_config and st = initial_token_state and env = granting_env
            and pre = pre and c = c and rest = rest
            and errs = "map (\<lambda>x. http_error_text x r401) pre" and tok = "JStr ''tok''"
            and n = 3600]
       creds cold split pre_fails grants
  have one: "get_token example_config granting_env initial_token_state
      = (Inr (JStr ''tok'', 3600002000), fresh_token_state, pre @ [c])"
    by (simp add: granting_env_def initial_token_state_def fresh_token_state_def)
  have tried: "pre @ [c] = take 4 (search_space ''abc'')"
    unfolding pre_def c_def
    by (simp add: search_space_def endpoints_def auth_modes_def scopes_def)
  have tried0: "[c0] = take 1 (search_space ''abc'')"
    unfolding c0_def
    by (simp add: search_space_def endpoints_def auth_modes_def scopes_def)
  have reach: "reachable example_config fresh_token_state"
    using reachable.after_call [OF reachable.at_import [of example_config 0]]
      one [unfolded initial_token_state_def] by blast
  have warm: "cache_valid refusing_env fresh_token_state"
    by (simp add: cache_valid_def fresh_token_state_def refusing_env_def)
  from get_token_behaviour
         [where cfg = example_config and st = fresh_token_state and env = refusing_env]
       reach warm
  have two: "get_token example_config refusing_env fresh_token_state
      = (Inr (JStr ''tok'', 3600002000), fresh_token_state, [])"
    by (simp add: fresh_token_state_def)
  from get_token_behaviour
         [where cfg = example_config and st = initial_token_state and env = refusing_env
            and errs = "map (\<lambda>x. http_error_text x r401)
                          (search_space (stripped (CLIENT_ID example_config)))"]
       creds cold all_fail
  have three: "\<exists>err. get_token example_config refusing_env initial_token_state
          = (Inl (Exn RuntimeError (exhausted_text err)), initial_token_state,
             search_space ''abc'')"
    unfolding cid by blast
  have keyless: "combo_answers keyless_env c0 (JObj [])"
    by (cases c0) (simp add: combo_answers_def keyless_env_def)
  from get_token_behaviour
         [where cfg = example_config and st = initial_token_state and env = keyless_env
            and pre = "[]" and c = c0 and rest = rest0 and errs = "[]" and js = "JObj []"]
       creds cold split0 keyless
  have four: "get_token example_config keyless_env initial_token_state
       = (Inl (Exn KeyError (quoted ''access_token'')), initial_token_state, [c0])"
    by (simp add: renew_def)
  have soon: "py_int (JStr ''soon'') = Inl (invalid_literal ''soon'')"
    by (simp add: int_of_str_def strip_with_def is_int_space_def unsigned_part_def is_digit_def)
  have vague: "combo_answers vague_env c0
      (JObj [(''access_token'', JStr ''tok''), (''expires_in'', JStr ''soon'')])"
    by (cases c0) (simp add: combo_answers_def vague_env_def)
  from get_token_behaviour
         [where cfg = example_config and st = initial_token_state and env = vague_env
            and pre = "[]" and c = c0 and rest = rest0 and errs = "[]"
            and js = "JObj [(''access_token'', JStr ''tok''), (''expires_in'', JStr ''soon'')]"]
       creds cold split0 vague
  have five: "get_token example_config vague_env initial_token_state
       = (Inl (invalid_literal ''soon''), initial_token_state\<lparr>cached_token := JStr ''tok''\<rparr>,
          [c0])"
    by (simp add: renew_def soon del: py_int.simps)
  have crash: "combo_raises crashing_env c0 (Exn OtherException ''out of memory'')"
    by (cases c0) (simp add: combo_raises_def crashing_env_def)
  from get_token_behaviour
         [where cfg = example_config and st = initial_token_state and env = crashing_env
            and pre = "[]" and c = c0 and rest = rest0 and errs = "[]"
            and e = "Exn OtherException ''out of memory''"]
       creds cold split0 crash
  have six: "get_token example_config crashing_env initial_token_state
       = (Inl (Exn OtherException ''out of memory''), initial_token_state, [c0])"
    by simp
  show ?thesis
    using creds cold one tried reach warm two three four five six tried0 by simp
qed

section \<open>Properties of the batch\<close>

subsection \<open>Claiming\<close>

text \<open>
  On one connection, a second \<^verbatim>\<open>fetch_batch\<close> returns none of the ids that the first one
  returned: the first one leaves their rows \<^verbatim>\<open>processing\<close>, and only \<^verbatim>\<open>queued\<close> rows are
  selected.
\<close>

lemma fetch_batch_ids:
  assumes "fetch_batch n q = (q', rows)"
  shows "\<forall>x\<in>set q'. IdQueue (q_row x) \<in> IdQueue ` set rows \<longrightarrow> Status x = ''processing''"
    and "\<forall>r\<in>set rows. \<exists>x\<in>set q. IdQueue (q_row x) = IdQueue r \<and> Status x = ''queued''"
proof -
  define ids where "ids = map (\<lambda>r. IdQueue (q_row r))
      (take n (sort_key EnqueuedAt (filter (\<lambda>r. Status r = ''queued'') q)))"
  have q': "q' = map (\<lambda>r. if IdQueue (q_row r) \<in> set ids
                         then r\<lparr>Status := ''processing'', Attempts := Attempts r + 1\<rparr>
                         else r) q"
    and rows: "rows = map q_row (filter (\<lambda>r. IdQueue (q_row r) \<in> set ids) q')"
    using assms by (auto simp add: fetch_batch_def ids_def Let_def)
  have sub: "IdQueue ` set rows \<subseteq> set ids" unfolding rows by auto
  show "\<forall>x\<in>set q'. IdQueue (q_row x) \<in> IdQueue ` set rows \<longrightarrow> Status x = ''processing''"
    using sub unfolding q' by auto
  have "\<exists>x\<in>set q. IdQueue (q_row x) = i \<and> Status x = ''queued''" if "i \<in> set ids" for i
  proof -
    from that obtain x where "x \<in> set (take n (sort_key EnqueuedAt (filter (\<lambda>r. Status r = ''queued'') q)))"
      "i = IdQueue (q_row x)" unfolding ids_def by auto
    then have "x \<in> set (filter (\<lambda>r. Status r = ''queued'') q)"
      using in_set_takeD set_sort by metis
    then show ?thesis using \<open>i = IdQueue (q_row x)\<close> by auto
  qed
  then show "\<forall>r\<in>set rows. \<exists>x\<in>set q. IdQueue (q_row x) = IdQueue r \<and> Status x = ''queued''"
    using sub by blast
qed

lemma fetch_batch_twice_disjoint:
  assumes "fetch_batch n q = (q', rows)" and "fetch_batch m q' = (q'', rows')"
  shows "IdQueue ` set rows \<inter> IdQueue ` set rows' = {}"
proof (rule ccontr)
  assume "IdQueue ` set rows \<inter> IdQueue ` set rows' \<noteq> {}"
  then obtain i where "i \<in> IdQueue ` set rows" "i \<in> IdQueue ` set rows'" by blast
  then obtain r' where r': "r' \<in> set rows'" "IdQueue r' \<in> IdQueue ` set rows"
    by (metis imageE)
  from fetch_batch_ids(2) [OF assms(2)] r'(1) obtain x where
    x: "x \<in> set q'" "IdQueue (q_row x) = IdQueue r'" "Status x = ''queued''" by blast
  from fetch_batch_ids(1) [OF assms(1)] x r'(2) have "Status x = ''processing''" by simp
  with x(3) show False by simp
qed


subsection \<open>Items and the cycle\<close>

lemma settled_mark:
  assumes "settled retry_max env S q" and "st = final_status retry_max env r"
  shows "settled retry_max env (insert r S)
           (map (\<lambda>x. if has_idq (IdQueue r) x then x\<lparr>Status := st, LastError := l\<rparr> else x) q)"
  unfolding settled_def
proof (intro ballI impI)
  fix y
  assume y: "y \<in> set (map (\<lambda>x. if has_idq (IdQueue r) x then x\<lparr>Status := st, LastError := l\<rparr> else x) q)"
    and "IdQueue (q_row y) \<in> IdQueue ` insert r S"
  from y obtain x where x: "x \<in> set q"
    "y = (if has_idq (IdQueue r) x then x\<lparr>Status := st, LastError := l\<rparr> else x)" by auto
  show "\<exists>r'\<in>insert r S. IdQueue r' = IdQueue (q_row y) \<and> Status y = final_status retry_max env r'"
  proof (cases "has_idq (IdQueue r) x")
    case True
    then show ?thesis using x assms(2) by (auto simp: has_idq_def)
  next
    case False
    then have yx: "y = x" and ne: "IdQueue (q_row x) \<noteq> IdQueue r" using x by (auto simp: has_idq_def)
    with \<open>IdQueue (q_row y) \<in> IdQueue ` insert r S\<close> have "IdQueue (q_row x) \<in> IdQueue ` S" by auto
    with assms(1) x(1) obtain r' where "r' \<in> S" "IdQueue r' = IdQueue (q_row x)"
      "Status x = final_status retry_max env r'" unfolding settled_def by blast
    then show ?thesis using yx by auto
  qed
qed

lemma settled_mark_done:
  assumes "settled retry_max env S q" and "item_done retry_max env r"
  shows "settled retry_max env (insert r S) (mark_done (IdQueue r) q)"
  unfolding mark_done_def
  by (rule settled_mark [OF assms(1)]) (simp add: final_status_def assms(2))

lemma settled_mark_error:
  assumes "settled retry_max env S q" and "\<not> item_done retry_max env r"
  shows "settled retry_max env (insert r S) (mark_error (IdQueue r) err q)"
  unfolding mark_error_def
  by (rule settled_mark [OF assms(1)]) (simp add: final_status_def assms(2))

lemma fault_at_None_all:
  assumes "fault_at env r AtInsertHist = None" "fault_at env r AtUpsertSnapshot = None"
    "fault_at env r AtMark = None" "fault_at env r AtCommit = None"
  shows "be_fault env r = None"
proof (cases "be_fault env r")
  case None
  then show ?thesis .
next
  case (Some p)
  obtain s e where "p = (s, e)" by (cases p)
  with Some assms show ?thesis by (cases s) (simp_all add: fault_at_def)
qed

lemma fault_at_Some: "fault_at env r s = Some e \<Longrightarrow> be_fault env r \<noteq> None"
  by (auto simp: fault_at_def split: option.splits)

text \<open>The values of the history row exist: no line of \<^verbatim>\<open>insert_hist\<close> before the \<^verbatim>\<open>INSERT\<close> raises.\<close>

lemma insert_hist_Inr:
  "(\<exists>v. insert_hist env h r te js = Inr v) \<longleftrightarrow>
     (case map_estado (be_items env) js of Inl e \<Rightarrow> False | Inr v \<Rightarrow> True)
     \<and> \<not> exceeds_limit js
     \<and> (case mensaje_of js of
          Inl e \<Rightarrow> False
        | Inr m \<Rightarrow> (case be_bind_text env m of Inl e \<Rightarrow> False | Inr t \<Rightarrow> True))
     \<and> fault_at env r AtInsertHist = None"
  by (auto simp: insert_hist_def json_dumps_def split: prod.splits sum.splits option.splits)

lemma mark_of_Inr:
  assumes "mensaje_of js = Inr m" and "\<not> exceeds_limit js"
  shows "mark_of env ok idq js
     = Inr (if ok then mark_done idq else mark_error idq (projr (payload_text env js)))"
  using assms
  by (cases js) (auto simp: mark_of_def payload_text_def json_dumps_def mensaje_of_def)

text \<open>A committed write sequence: one unit on top of the open transaction.\<close>

lemma try_item_Inr:
  assumes "try_item retry_max env te c r = Inr (c', ok)"
  shows "committed c' = working c'"
    and "ok \<longleftrightarrow> item_done retry_max env r"
    and "T_QUEUE (working c')
         = (if ok then mark_done (IdQueue r) (T_QUEUE (working c))
            else mark_error (IdQueue r)
                   (projr (payload_text env
                             (snd (projr (fst (call_sunat retry_max (be_post env r)))))))
                   (T_QUEUE (working c)))"
proof -
  from assms obtain js where call: "fst (call_sunat retry_max (be_post env r)) = Inr (ok, js)"
    and f2: "fault_at env r AtUpsertSnapshot = None"
    and f3: "fault_at env r AtMark = None" and f4: "fault_at env r AtCommit = None"
    and ih: "\<exists>v. insert_hist env (T_HIST (working c)) r te js = Inr v"
    by (auto simp: try_item_def Let_def split: sum.splits prod.splits option.splits)
  note ok = ih [unfolded insert_hist_Inr]
  then have f1: "fault_at env r AtInsertHist = None" by simp
  have w: "writes_ok env r js"
    using fault_at_None_all [OF f1 f2 f3 f4] ok by (simp add: writes_ok_def)
  from ok obtain m where m: "mensaje_of js = Inr m" "\<not> exceeds_limit js"
    by (auto split: sum.splits)
  note mark = mark_of_Inr [OF m, of env ok "IdQueue r"]
  show "ok \<longleftrightarrow> item_done retry_max env r"
    using call w by (simp add: item_done_def)
  show "committed c' = working c'"
    using assms
    by (auto simp: try_item_def Let_def commit_def split: sum.splits prod.splits option.splits)
  show "T_QUEUE (working c')
         = (if ok then mark_done (IdQueue r) (T_QUEUE (working c))
            else mark_error (IdQueue r)
                   (projr (payload_text env
                             (snd (projr (fst (call_sunat retry_max (be_post env r)))))))
                   (T_QUEUE (working c)))"
    using assms call mark
    by (auto simp: try_item_def Let_def commit_def split: sum.splits prod.splits option.splits)
qed

text \<open>An item that is done: its \<^verbatim>\<open>try\<close> block runs through.\<close>

lemma try_item_done:
  assumes "item_done retry_max env r"
  shows "\<exists>c'. try_item retry_max env te c r = Inr (c', True)"
proof -
  from assms obtain js where call: "fst (call_sunat retry_max (be_post env r)) = Inr (True, js)"
    and w: "writes_ok env r js"
    by (auto simp: item_done_def split: sum.splits)
  from w have none: "fault_at env r s = None" for s
    by (simp add: writes_ok_def fault_at_def)
  from w none [of AtInsertHist]
  obtain v where "insert_hist env (T_HIST (working c)) r te js = Inr v"
    using insert_hist_Inr [of env "T_HIST (working c)" r te js]
    by (auto simp: writes_ok_def)
  then show ?thesis
    using call none
    by (cases v) (simp add: try_item_def mark_of_def Let_def)
qed

lemma try_item_Inl:
  assumes "try_item retry_max env te c r = Inl (e, c')"
  shows "committed c' = committed c" and "\<not> item_done retry_max env r"
proof -
  show "committed c' = committed c"
    using assms
    by (auto simp: try_item_def Let_def split: sum.splits prod.splits option.splits)
  show "\<not> item_done retry_max env r"
    using assms try_item_done [of retry_max env r te c] by auto
qed

lemma handle_item_Inr:
  assumes "handle_item env c r e = Inr c'"
  shows "committed c' = working c'"
    and "working c'
         = (committed c)\<lparr>T_QUEUE := mark_error (IdQueue r) (exn_text e) (T_QUEUE (committed c))\<rparr>"
  using assms
  by (auto simp: handle_item_def Let_def commit_def rollback_def split: option.splits)

lemma process_item_settled:
  assumes "process_item retry_max env te c r = Inr (c', ok)"
    and "settled retry_max env S (T_QUEUE (working c))"
    and "settled retry_max env S (T_QUEUE (committed c))"
  shows "settled retry_max env (insert r S) (T_QUEUE (working c'))
      \<and> committed c' = working c' \<and> (ok \<longleftrightarrow> item_done retry_max env r)"
proof -
  show ?thesis
  proof (cases "try_item retry_max env te c r")
    case (Inr p)
    with assms(1) have t: "try_item retry_max env te c r = Inr (c', ok)"
      by (auto simp: process_item_def split: prod.splits)
    from try_item_Inr [OF t] assms(2) show ?thesis
      by (auto intro: settled_mark_done settled_mark_error)
  next
    case (Inl p)
    obtain e c1 where p: "p = (e, c1)" by (cases p)
    with Inl assms(1) have h: "handle_item env c1 r e = Inr c'" and ok: "\<not> ok"
      by (auto simp: process_item_def split: sum.splits prod.splits)
    from Inl p have t: "try_item retry_max env te c r = Inl (e, c1)" by simp
    from try_item_Inl [OF t] handle_item_Inr [OF h] assms(3) ok show ?thesis
      by (auto intro: settled_mark_error)
  qed
qed

lemma process_items_settled:
  assumes "process_items retry_max env te c rs ok_cnt err_cnt = Inr (c', ok_cnt', err_cnt')"
    and "settled retry_max env S (T_QUEUE (working c))"
    and "settled retry_max env S (T_QUEUE (committed c))"
  shows "settled retry_max env (S \<union> set rs) (T_QUEUE (working c'))
     \<and> (rs \<noteq> [] \<longrightarrow> committed c' = working c')
     \<and> ok_cnt' = ok_cnt + length (filter (item_done retry_max env) rs)
     \<and> err_cnt' = err_cnt + length (filter (\<lambda>r. \<not> item_done retry_max env r) rs)"
  using assms
proof (induction rs arbitrary: c S ok_cnt err_cnt)
  case Nil
  then show ?case by simp
next
  case (Cons r rs)
  from Cons.prems(1) obtain c1 ok where
    step: "process_item retry_max env te c r = Inr (c1, ok)"
    and rest: "process_items retry_max env te c1 rs (ok_cnt + (if ok then 1 else 0))
                 (err_cnt + (if ok then 0 else 1)) = Inr (c', ok_cnt', err_cnt')"
    by (auto split: sum.splits prod.splits)
  from process_item_settled [OF step Cons.prems(2,3)]
  have s: "settled retry_max env (insert r S) (T_QUEUE (working c1))"
    "committed c1 = working c1" "ok \<longleftrightarrow> item_done retry_max env r" by auto
  have s1: "settled retry_max env (insert r S) (T_QUEUE (committed c1))" using s(1,2) by simp
  from Cons.IH [OF rest s(1) s1]
  have ih: "settled retry_max env (insert r S \<union> set rs) (T_QUEUE (working c'))"
    "rs \<noteq> [] \<longrightarrow> committed c' = working c'"
    "ok_cnt' = ok_cnt + (if ok then 1 else 0) + length (filter (item_done retry_max env) rs)"
    "err_cnt' = err_cnt + (if ok then 0 else 1)
        + length (filter (\<lambda>r. \<not> item_done retry_max env r) rs)"
    by auto
  have "committed c' = working c'"
  proof (cases rs)
    case Nil
    with rest s(2) show ?thesis by simp
  next
    case (Cons a list)
    with ih(2) show ?thesis by simp
  qed
  then show ?case using ih s(3) by auto
qed

lemma settled_empty: "settled retry_max env {} q"
  by (simp add: settled_def)

lemma final_sync_queue:
  "T_QUEUE (working (final_sync env c)) = T_QUEUE (working c)
   \<and> (committed c = working c \<longrightarrow> committed (final_sync env c) = working (final_sync env c))"
  by (auto simp: final_sync_def commit_def split: sum.splits)


text \<open>The status of the two example payloads.\<close>

lemma map_estado_estado3:
  "map_estado items estado3 = Inr (Some ''AUTORIZADO'', Some ''AUTORIZADO (3)'', Some ''3'')"
proof -
  have "str_int 3 = ''3''" by (simp add: str_int_def str_nat_small digit_char_def)
  then show ?thesis
    by (simp add: estado3_def map_estado_spec code_field_cases as_str_JInt short_int
        mapStatus_spec_def)
qed

lemma map_estado_empty_list: "map_estado items (JArr []) = Inr (None, None, None)"
  by (simp add: map_estado_no_code code_field_cases)

lemma estado3_short: "\<not> exceeds_limit estado3"
  by (simp add: estado3_def short_int)

lemma mensaje_of_estado3: "mensaje_of estado3 = Inr JNull"
  by (simp add: estado3_def mensaje_of_def dict_get_def py_or_def)

lemma mensaje_of_empty_list:
  "mensaje_of (JArr [])
     = Inl (Exn AttributeError (quoted ''list'' @ '' object has no attribute '' @ quoted ''get''))"
  by (simp add: mensaje_of_def)

lemmas batch_defs =
  process_batch_def get_token_def stripped_def or_empty_def strip_def strip_with_def is_space_def
  example_settings_def example_config_def example_env_def refusing_env_def fresh_token_state_def
  fetch_batch_def example_cnx_def example_db_def example_queue_def example_row_def second_row_def
  to_body_postman_def fecha_str_of_def monto_of_def quantize_cents_def rescale_half_up_def
  ndigits_def str_decimal2_def str_nat.simps digit_char_def dmy_text_def pad2_def Let_def
  process_item_def try_item_def handle_item_def call_sunat_def call_sunat_from.simps attempt_def
  post_authorized_def post_list_body_def fault_at_def handler_fault_at_def
  no_fault_def first_insert_fails_def deadlock_def insert_hist_def map_estado_estado3
  map_estado_empty_list estado3_short mensaje_of_estado3 mensaje_of_empty_list json_dumps_def
  mark_of_def
  text_binding_def upsert_snapshot_def has_id_def truthy_text_def mark_done_def mark_error_def
  has_idq_def payload_text_def commit_def rollback_def final_sync_def
  update_final_from_snapshot_def count_to_fix_def sync_rows_def joined_def is_joined_def
  differs_def mirror_def text_differs_def fecha_differs_def sql_neq_def cambio_differs_def
  example_final_blank_def quoted_def

text \<open>
  When the \<^verbatim>\<open>try\<close> block of a row raises and the \<^verbatim>\<open>except\<close> clause runs through, the
  connection is left with every table as of the last commit, but for the queue rows of this
  id, which are \<^verbatim>\<open>error\<close> with the first 3900 characters of the exception text; this is
  committed, and the row is not counted as ok.
\<close>

lemma process_item_failure:
  assumes "try_item retry_max env te c r = Inl (e, c1)"
    and "be_handler_fault env r = None"
  shows "process_item retry_max env te c r
     = Inr (\<lparr>committed = (committed c)\<lparr>T_QUEUE := mark_error (IdQueue r) (exn_text e)
                                                  (T_QUEUE (committed c))\<rparr>,
             working = (committed c)\<lparr>T_QUEUE := mark_error (IdQueue r) (exn_text e)
                                                  (T_QUEUE (committed c))\<rparr>\<rparr>, False)"
proof -
  have "committed c1 = committed c" using try_item_Inl(1) [OF assms(1)] .
  then show ?thesis
    using assms
    by (simp add: process_item_def handle_item_def handler_fault_at_def rollback_def
        commit_def Let_def)
qed

text \<open>
  When the \<^verbatim>\<open>try\<close> block of a row runs through, the history row, the snapshot upsert and
  the queue mark are committed together, on top of what the transaction held.
\<close>

lemma process_item_success:
  assumes "try_item retry_max env te c r = Inr (c', ok)"
  shows "process_item retry_max env te c r = Inr (c', ok)"
    and "committed c' = working c'"
    and "\<exists>h tx de cod msg.
           insert_hist env (T_HIST (working c)) r te
             (snd (projr (fst (call_sunat retry_max (be_post env r)))))
             = Inr (h, tx, de, cod, msg)
           \<and> T_HIST (working c') = h
           \<and> T_SNAPSHOT (working c')
               = upsert_snapshot (be_ahora env r) (T_SNAPSHOT (working c)) r tx de cod msg
           \<and> T_FINAL (working c') = T_FINAL (working c)"
proof -
  show "process_item retry_max env te c r = Inr (c', ok)"
    using assms by (simp add: process_item_def)
  show "committed c' = working c'" using try_item_Inr(1) [OF assms] .
  show "\<exists>h tx de cod msg.
           insert_hist env (T_HIST (working c)) r te
             (snd (projr (fst (call_sunat retry_max (be_post env r)))))
             = Inr (h, tx, de, cod, msg)
           \<and> T_HIST (working c') = h
           \<and> T_SNAPSHOT (working c')
               = upsert_snapshot (be_ahora env r) (T_SNAPSHOT (working c)) r tx de cod msg
           \<and> T_FINAL (working c') = T_FINAL (working c)"
    using assms
    by (auto simp: try_item_def Let_def commit_def split: sum.splits prod.splits option.splits)
qed

text \<open>
  The loop goes on to the next row whatever happens in a \<^verbatim>\<open>try\<close> block: it returns unless
  the \<^verbatim>\<open>except\<close> clause itself raises.
\<close>

lemma process_item_total:
  assumes "be_handler_fault env r = None"
  shows "\<exists>c' ok. process_item retry_max env te c r = Inr (c', ok)"
proof (cases "try_item retry_max env te c r")
  case (Inl p)
  obtain e c1 where "p = (e, c1)" by (cases p)
  with Inl process_item_failure [OF _ assms] show ?thesis by blast
next
  case (Inr p)
  then show ?thesis by (cases p) (simp add: process_item_def)
qed

lemma process_items_total:
  "\<forall>r\<in>set rs. be_handler_fault env r = None \<Longrightarrow>
   \<exists>c' a b. process_items retry_max env te c rs ok_cnt err_cnt = Inr (c', a, b)"
proof (induction rs arbitrary: c ok_cnt err_cnt)
  case Nil
  then show ?case by simp
next
  case (Cons r rs)
  then have "be_handler_fault env r = None" by simp
  from process_item_total [OF this] obtain c1 ok
    where "process_item retry_max env te c r = Inr (c1, ok)" by blast
  moreover from Cons have "\<exists>c' a b. process_items retry_max env te c1 rs
      (ok_cnt + (if ok then 1 else 0)) (err_cnt + (if ok then 0 else 1)) = Inr (c', a, b)"
    by simp
  ultimately show ?case by simp
qed

lemma length_filter_sort_key: "length (filter P (sort_key f xs)) = length (filter P xs)"
  by (simp add: filter_sort)

lemma py_str_Inr: "\<not> exceeds_limit v \<Longrightarrow> \<exists>t. py_str items v = Inr t"
proof (cases v)
  case (JFloat f)
  then show ?thesis by (cases f) simp_all
qed (simp_all add: py_str_int_def)

text \<open>
  A cycle returns: with a token that has a text, a batch size that is not negative, rows that
  serialize and an \<^verbatim>\<open>except\<close> clause that does not raise, \<^verbatim>\<open>process_batch\<close> returns the
  number of claimed rows, the number of rows done and the number of the others.
\<close>

lemma process_batch_returns:
  assumes token: "get_token (config_of s) (be_token env) ts = (Inr (tok, te), ts', tried)"
    and short: "\<not> exceeds_limit tok"
    and size: "0 \<le> WORKER_BATCH s"
    and rows: "rows = snd (fetch_batch (nat (WORKER_BATCH s)) (T_QUEUE (working c)))"
    and bodies: "bodies_error env rows = None"
    and handler: "\<forall>r\<in>set rows. be_handler_fault env r = None"
  shows "\<exists>c'. process_batch s env ts c
     = (Inr (length rows, length (filter (item_done (RETRY_MAX s) env) rows),
             length (filter (\<lambda>r. \<not> item_done (RETRY_MAX s) env r) rows)), ts', c')"
proof -
  from py_str_Inr [OF short] obtain bearer where bearer: "py_str (be_items env) tok = Inr bearer"
    by blast
  show ?thesis
  proof (cases "rows = []")
    case True
    obtain q where "fetch_batch (nat (WORKER_BATCH s)) (T_QUEUE (working c)) = (q, [])"
      using rows True
      by (cases "fetch_batch (nat (WORKER_BATCH s)) (T_QUEUE (working c))") simp
    then show ?thesis
      using token bearer size True by (simp add: process_batch_def Let_def)
  next
    case False
    obtain q where q: "fetch_batch (nat (WORKER_BATCH s)) (T_QUEUE (working c)) = (q, rows)"
      using rows by (cases "fetch_batch (nat (WORKER_BATCH s)) (T_QUEUE (working c))") simp
    let ?c1 = "c\<lparr>working := (working c)\<lparr>T_QUEUE := q\<rparr>\<rparr>"
    have "\<forall>r\<in>set (sort_key (be_done_at env) rows). be_handler_fault env r = None"
      using handler by simp
    from process_items_total [OF this] obtain c2 a b where
      run: "process_items (RETRY_MAX s) env te ?c1 (sort_key (be_done_at env) rows) 0 0
              = Inr (c2, a, b)" by blast
    from process_items_settled [OF run settled_empty settled_empty]
    have "a = length (filter (item_done (RETRY_MAX s) env) rows)"
      "b = length (filter (\<lambda>r. \<not> item_done (RETRY_MAX s) env r) rows)"
      by (simp_all add: length_filter_sort_key)
    then show ?thesis
      using token bearer size bodies q False run by (simp add: process_batch_def Let_def)
  qed
qed


text \<open>
  C8, at a failing input. Two queued invoices are claimed; the history insert of the first
  one to complete raises, the second one meets no failure. The rollback in the \<^verbatim>\<open>except\<close>
  clause discards the whole open transaction, and the claim of \<^verbatim>\<open>fetch_batch\<close> is still in
  it: the second invoice, which did not fail, ends the cycle with its attempt counter at 0
  instead of 1, and so does the first. In the same cycle without the failure both counters
  are 1.
\<close>

theorem first_failure_discards_claim:
  "(case process_batch example_settings (example_env post_authorized first_insert_fails)
            fresh_token_state example_cnx of
      (res, ts, c) \<Rightarrow>
        (res, map (\<lambda>q. (IdQueue (q_row q), Status q, Attempts q, LastError q))
                  (T_QUEUE (committed c))))
   = (Inr (2, 1, 1),
      [(1, ''error'', 0, Some ''Transaction was deadlocked''), (2, ''done'', 0, None)])
   \<and> (case process_batch example_settings (example_env post_authorized no_fault)
            fresh_token_state example_cnx of
      (res, ts, c) \<Rightarrow>
        (res, map (\<lambda>q. (IdQueue (q_row q), Status q, Attempts q, LastError q))
                  (T_QUEUE (committed c))))
   = (Inr (2, 2, 0), [(1, ''done'', 1, None), (2, ''done'', 1, None)])"
  by (simp add: batch_defs)

text \<open>
  C9, as the claim states it, fails: an item whose validation call succeeded is not always
  \<^verbatim>\<open>done\<close>. The call for invoice 100 returns success, its history insert raises, and the
  \<^verbatim>\<open>except\<close> clause marks it \<^verbatim>\<open>error\<close>. Likewise, when the server answers 200 with the JSON body
  \<^verbatim>\<open>[]\<close>, the call returns success, \<^verbatim>\<open>insert_hist\<close> raises on \<^verbatim>\<open>js.get\<close>, and both items are
  marked \<^verbatim>\<open>error\<close>.
\<close>

theorem validated_item_marked_error_counterexample:
  "fst (call_sunat 3 (post_authorized example_row)) = Inr (True, estado3)
   \<and> (case process_batch example_settings (example_env post_authorized first_insert_fails)
            fresh_token_state example_cnx of
      (res, ts, c) \<Rightarrow> (res, map (\<lambda>q. (IdQueue (q_row q), Status q)) (T_QUEUE (committed c))))
     = (Inr (2, 1, 1), [(1, ''error''), (2, ''done'')])
   \<and> fst (call_sunat 3 (post_list_body example_row)) = Inr (True, JArr [])
   \<and> (case process_batch example_settings (example_env post_list_body no_fault)
            fresh_token_state example_cnx of
      (res, ts, c) \<Rightarrow> (res, map (\<lambda>q. (IdQueue (q_row q), Status q)) (T_QUEUE (committed c))))
     = (Inr (2, 0, 2), [(1, ''error''), (2, ''error'')])"
  by (simp add: batch_defs)

lemma process_batch_Inr:
  assumes "process_batch s env ts c = (Inr (n_total, ok_cnt, err_cnt), ts', c')"
    and "fetch_batch (nat (WORKER_BATCH s)) (T_QUEUE (working c)) = (q, rows)"
  shows "\<exists>tok te tried.
      get_token (config_of s) (be_token env) ts = (Inr (tok, te), ts', tried)
      \<and> (if rows = []
         then n_total = 0 \<and> ok_cnt = 0 \<and> err_cnt = 0
              \<and> c' = c\<lparr>working := (working c)\<lparr>T_QUEUE := q\<rparr>\<rparr>
         else \<exists>c2. process_items (RETRY_MAX s) env te (c\<lparr>working := (working c)\<lparr>T_QUEUE := q\<rparr>\<rparr>)
                       (sort_key (be_done_at env) rows) 0 0 = Inr (c2, ok_cnt, err_cnt)
                    \<and> c' = final_sync env c2 \<and> n_total = length rows)"
proof -
  obtain g ts1 tried where g: "get_token (config_of s) (be_token env) ts = (g, ts1, tried)"
    by (metis prod_cases3)
  show ?thesis
  proof (cases g)
    case (Inl e)
    with assms(1) g show ?thesis by (simp add: process_batch_def)
  next
    case (Inr p)
    obtain tok te where p: "p = (tok, te)" by (cases p)
    show ?thesis
      using assms g Inr p
      by (auto simp: process_batch_def Let_def
            split: if_splits option.splits sum.splits prod.splits)
  qed
qed

text \<open>
  No statement of the cycle adds or removes a queue row or changes one of its nine invoice
  columns, so the claimed rows are still in the table when the cycle returns.
\<close>

lemma q_row_mark_done [simp]: "map q_row (mark_done idq q) = map q_row q"
  by (induction q) (simp_all add: mark_done_def)

lemma q_row_mark_error [simp]: "map q_row (mark_error idq err q) = map q_row q"
  by (induction q) (simp_all add: mark_error_def)

lemma fetch_batch_rows:
  assumes "fetch_batch n q = (q', rows)"
  shows "map q_row q' = map q_row q" and "set rows \<subseteq> q_row ` set q'"
proof -
  define ids where "ids = map (\<lambda>r. IdQueue (q_row r))
      (take n (sort_key EnqueuedAt (filter (\<lambda>r. Status r = ''queued'') q)))"
  have q': "q' = map (\<lambda>r. if IdQueue (q_row r) \<in> set ids
                         then r\<lparr>Status := ''processing'', Attempts := Attempts r + 1\<rparr>
                         else r) q"
    and rows: "rows = map q_row (filter (\<lambda>r. IdQueue (q_row r) \<in> set ids) q')"
    using assms by (auto simp add: fetch_batch_def ids_def Let_def)
  show "map q_row q' = map q_row q" unfolding q' by (induction q) simp_all
  show "set rows \<subseteq> q_row ` set q'" unfolding rows by auto
qed

lemma process_item_rows:
  assumes "process_item retry_max env te c r = Inr (c', ok)"
    and "map q_row (T_QUEUE (committed c)) = rows0"
    and "map q_row (T_QUEUE (working c)) = rows0"
  shows "map q_row (T_QUEUE (working c')) = rows0"
proof (cases "try_item retry_max env te c r")
  case (Inr p)
  with assms(1) have t: "try_item retry_max env te c r = Inr (c', ok)"
    by (auto simp: process_item_def split: prod.splits)
  from try_item_Inr(3) [OF t] assms(3) show ?thesis by simp
next
  case (Inl p)
  obtain e c1 where p: "p = (e, c1)" by (cases p)
  with Inl assms(1) have h: "handle_item env c1 r e = Inr c'"
    by (auto simp: process_item_def split: sum.splits prod.splits)
  from Inl p have t: "try_item retry_max env te c r = Inl (e, c1)" by simp
  from try_item_Inl(1) [OF t] handle_item_Inr(2) [OF h] assms(2) show ?thesis by simp
qed

lemma process_items_rows:
  assumes "process_items retry_max env te c rs ok_cnt err_cnt = Inr (c', ok_cnt', err_cnt')"
    and "map q_row (T_QUEUE (committed c)) = rows0"
    and "map q_row (T_QUEUE (working c)) = rows0"
  shows "map q_row (T_QUEUE (working c')) = rows0"
  using assms
proof (induction rs arbitrary: c ok_cnt err_cnt)
  case Nil
  then show ?case by simp
next
  case (Cons r rs)
  from Cons.prems(1) obtain c1 ok where
    step: "process_item retry_max env te c r = Inr (c1, ok)"
    and rest: "process_items retry_max env te c1 rs (ok_cnt + (if ok then 1 else 0))
                 (err_cnt + (if ok then 0 else 1)) = Inr (c', ok_cnt', err_cnt')"
    by (auto split: sum.splits prod.splits)
  have w: "map q_row (T_QUEUE (working c1)) = rows0"
    using process_item_rows [OF step Cons.prems(2,3)] .
  have "committed c1 = working c1"
    using process_item_settled [OF step settled_empty settled_empty] by simp
  with w have "map q_row (T_QUEUE (committed c1)) = rows0" by simp
  from Cons.IH [OF rest this w] show ?case .
qed

lemma process_batch_rows:
  assumes "process_batch s env ts c = (Inr (n_total, ok_cnt, err_cnt), ts', c')"
    and "rows = snd (fetch_batch (nat (WORKER_BATCH s)) (T_QUEUE (working c)))"
    and "map q_row (T_QUEUE (committed c)) = map q_row (T_QUEUE (working c))"
  shows "map q_row (T_QUEUE (working c')) = map q_row (T_QUEUE (working c))"
    and "set rows \<subseteq> q_row ` set (T_QUEUE (working c'))"
proof -
  obtain q where q: "fetch_batch (nat (WORKER_BATCH s)) (T_QUEUE (working c)) = (q, rows)"
    using assms(2) by (cases "fetch_batch (nat (WORKER_BATCH s)) (T_QUEUE (working c))") simp
  let ?c1 = "c\<lparr>working := (working c)\<lparr>T_QUEUE := q\<rparr>\<rparr>"
  note fb = fetch_batch_rows [OF q]
  have same: "map q_row (T_QUEUE (working c')) = map q_row q"
  proof (cases "rows = []")
    case True
    then show ?thesis using process_batch_Inr [OF assms(1) q] by simp
  next
    case False
    from process_batch_Inr [OF assms(1) q] False obtain te c2 where
      run: "process_items (RETRY_MAX s) env te ?c1 (sort_key (be_done_at env) rows) 0 0
              = Inr (c2, ok_cnt, err_cnt)"
      and c': "c' = final_sync env c2"
      by auto
    have "map q_row (T_QUEUE (committed ?c1)) = map q_row q"
      "map q_row (T_QUEUE (working ?c1)) = map q_row q"
      using assms(3) fb(1) by simp_all
    from process_items_rows [OF run this] c' final_sync_queue [of env c2]
    show ?thesis by simp
  qed
  with fb(1) show "map q_row (T_QUEUE (working c')) = map q_row (T_QUEUE (working c))" by simp
  have "q_row ` set (T_QUEUE (working c')) = q_row ` set q"
    using same by (metis set_map)
  with fb(2) show "set rows \<subseteq> q_row ` set (T_QUEUE (working c'))" by simp
qed

text \<open>
  C9, amended: when \<^verbatim>\<open>process_batch\<close> returns, every queue row with the id of a claimed row
  has the final status of a claimed row with that id: \<^verbatim>\<open>done\<close> when the validation call of
  that row succeeded and its write sequence met no exception, \<^verbatim>\<open>error\<close> otherwise. So no such
  row is \<^verbatim>\<open>processing\<close>. When rows were claimed, all of this is committed. The three numbers
  returned are the number of claimed rows, of those done and of the others. When the cycle starts
  with the same queue rows committed and in the transaction, each claimed row is still in the
  table at the end.
\<close>

theorem process_batch_settles:
  assumes "process_batch s env ts c = (Inr (n_total, ok_cnt, err_cnt), ts', c')"
    and "rows = snd (fetch_batch (nat (WORKER_BATCH s)) (T_QUEUE (working c)))"
  shows "settled (RETRY_MAX s) env (set rows) (T_QUEUE (working c'))
     \<and> (\<forall>x\<in>set (T_QUEUE (working c')). IdQueue (q_row x) \<in> IdQueue ` set rows
          \<longrightarrow> Status x = ''done'' \<or> Status x = ''error'')
     \<and> (rows \<noteq> [] \<longrightarrow> committed c' = working c')
     \<and> n_total = length rows
     \<and> ok_cnt = length (filter (item_done (RETRY_MAX s) env) rows)
     \<and> err_cnt = length (filter (\<lambda>r. \<not> item_done (RETRY_MAX s) env r) rows)
     \<and> (map q_row (T_QUEUE (committed c)) = map q_row (T_QUEUE (working c))
          \<longrightarrow> map q_row (T_QUEUE (working c')) = map q_row (T_QUEUE (working c))
              \<and> set rows \<subseteq> q_row ` set (T_QUEUE (working c')))"
proof -
  obtain q where q: "fetch_batch (nat (WORKER_BATCH s)) (T_QUEUE (working c)) = (q, rows)"
    using assms(2) by (cases "fetch_batch (nat (WORKER_BATCH s)) (T_QUEUE (working c))") simp
  let ?c1 = "c\<lparr>working := (working c)\<lparr>T_QUEUE := q\<rparr>\<rparr>"
  have main: "settled (RETRY_MAX s) env (set rows) (T_QUEUE (working c'))
     \<and> (rows \<noteq> [] \<longrightarrow> committed c' = working c')
     \<and> n_total = length rows
     \<and> ok_cnt = length (filter (item_done (RETRY_MAX s) env) rows)
     \<and> err_cnt = length (filter (\<lambda>r. \<not> item_done (RETRY_MAX s) env r) rows)"
  proof (cases "rows = []")
    case True
    then show ?thesis
      using process_batch_Inr [OF assms(1) q] by (simp add: settled_empty)
  next
    case False
    from process_batch_Inr [OF assms(1) q] False obtain te c2 where
      run: "process_items (RETRY_MAX s) env te ?c1 (sort_key (be_done_at env) rows) 0 0
              = Inr (c2, ok_cnt, err_cnt)"
      and c': "c' = final_sync env c2" and total: "n_total = length rows"
      by auto
    have "sort_key (be_done_at env) rows \<noteq> []"
      using False by (metis length_sort length_0_conv)
    with process_items_settled [OF run settled_empty settled_empty]
    have "settled (RETRY_MAX s) env (set rows) (T_QUEUE (working c2))"
      "committed c2 = working c2"
      "ok_cnt = length (filter (item_done (RETRY_MAX s) env) rows)"
      "err_cnt = length (filter (\<lambda>r. \<not> item_done (RETRY_MAX s) env r) rows)"
      by (simp_all add: length_filter_sort_key)
    then show ?thesis
      using c' total final_sync_queue [of env c2] by simp
  qed
  moreover have "Status x = ''done'' \<or> Status x = ''error''"
    if "x \<in> set (T_QUEUE (working c'))" "IdQueue (q_row x) \<in> IdQueue ` set rows" for x
  proof -
    from main that obtain r where "Status x = final_status (RETRY_MAX s) env r"
      unfolding settled_def by blast
    then show ?thesis by (simp add: final_status_def)
  qed
  moreover have "map q_row (T_QUEUE (working c')) = map q_row (T_QUEUE (working c))
       \<and> set rows \<subseteq> q_row ` set (T_QUEUE (working c'))"
    if "map q_row (T_QUEUE (committed c)) = map q_row (T_QUEUE (working c))"
    using process_batch_rows [OF assms that] by simp
  ultimately show ?thesis by blast
qed

theorem process_batch_settles_witness:
  "snd (fetch_batch (nat (WORKER_BATCH example_settings)) (T_QUEUE (working example_cnx)))
     = [example_row, second_row]
   \<and> fst (process_batch example_settings (example_env post_authorized no_fault)
            fresh_token_state example_cnx) = Inr (2, 2, 0)
   \<and> settled (RETRY_MAX example_settings) (example_env post_authorized no_fault)
        (set [example_row, second_row])
        (T_QUEUE (working (snd (snd (process_batch example_settings
            (example_env post_authorized no_fault) fresh_token_state example_cnx)))))
   \<and> item_done (RETRY_MAX example_settings) (example_env post_authorized no_fault) example_row
   \<and> map Status (T_QUEUE (committed (snd (snd (process_batch example_settings
            (example_env post_authorized no_fault) fresh_token_state example_cnx)))))
       = [''done'', ''done'']
   \<and> map q_row (T_QUEUE (committed example_cnx)) = map q_row (T_QUEUE (working example_cnx))
   \<and> set [example_row, second_row]
       \<subseteq> q_row ` set (T_QUEUE (working (snd (snd (process_batch example_settings
            (example_env post_authorized no_fault) fresh_token_state example_cnx)))))"
proof -
  let ?p = "process_batch example_settings (example_env post_authorized no_fault)
              fresh_token_state example_cnx"
  have same: "map q_row (T_QUEUE (committed example_cnx))
                = map q_row (T_QUEUE (working example_cnx))"
    by (simp add: example_cnx_def)
  have rows: "snd (fetch_batch (nat (WORKER_BATCH example_settings))
                 (T_QUEUE (working example_cnx))) = [example_row, second_row]"
    by (simp add: batch_defs)
  have res: "fst ?p = Inr (2, 2, 0)"
    by (simp add: batch_defs)
  have st: "map Status (T_QUEUE (committed (snd (snd ?p)))) = [''done'', ''done'']"
    by (simp add: batch_defs)
  have d: "item_done (RETRY_MAX example_settings) (example_env post_authorized no_fault)
             example_row"
    by (simp add: item_done_def writes_ok_def batch_defs)
  have run: "?p = (Inr (2, 2, 0), fst (snd ?p), snd (snd ?p))"
    using res by (metis prod.collapse)
  from process_batch_settles [OF run rows [symmetric]] rows res st d same show ?thesis by simp
qed


subsection \<open>A second connection\<close>

text \<open>
  While the claim of a connection is open, a second connection is handed none of its rows:
  with one queue row per id, the rows of the claimed ids are written by the open transaction,
  and the second claim passes over them.
\<close>

lemma fetch_batch_rows_ids:
  assumes "fetch_batch n q = (q', rows)"
  shows "\<forall>x\<in>set q. IdQueue (q_row x) \<in> IdQueue ` set rows \<longrightarrow>
           x\<lparr>Status := ''processing'', Attempts := Attempts x + 1\<rparr> \<in> set q'"
    and "\<forall>y\<in>set q'. \<exists>x\<in>set q. IdQueue (q_row x) = IdQueue (q_row y)
           \<and> (y = x \<or> y = x\<lparr>Status := ''processing'', Attempts := Attempts x + 1\<rparr>)
           \<and> (IdQueue (q_row x) \<in> IdQueue ` set rows
                \<longrightarrow> y = x\<lparr>Status := ''processing'', Attempts := Attempts x + 1\<rparr>)"
proof -
  define ids where "ids = map (\<lambda>r. IdQueue (q_row r))
      (take n (sort_key EnqueuedAt (filter (\<lambda>r. Status r = ''queued'') q)))"
  define f where "f = (\<lambda>r::'a queue_row. if IdQueue (q_row r) \<in> set ids
                         then r\<lparr>Status := ''processing'', Attempts := Attempts r + 1\<rparr>
                         else r)"
  have q': "q' = map f q"
    and rows: "rows = map q_row (filter (\<lambda>r. IdQueue (q_row r) \<in> set ids) q')"
    using assms by (auto simp add: fetch_batch_def ids_def f_def Let_def)
  have idf: "IdQueue (q_row (f x)) = IdQueue (q_row x)" for x by (simp add: f_def)
  have sub: "IdQueue ` set rows \<subseteq> set ids" unfolding rows by auto
  show "\<forall>x\<in>set q. IdQueue (q_row x) \<in> IdQueue ` set rows \<longrightarrow>
           x\<lparr>Status := ''processing'', Attempts := Attempts x + 1\<rparr> \<in> set q'"
  proof (intro ballI impI)
    fix x assume x: "x \<in> set q" "IdQueue (q_row x) \<in> IdQueue ` set rows"
    then have "f x = x\<lparr>Status := ''processing'', Attempts := Attempts x + 1\<rparr>"
      using sub by (auto simp: f_def)
    with x(1) show "x\<lparr>Status := ''processing'', Attempts := Attempts x + 1\<rparr> \<in> set q'"
      unfolding q' by (metis image_eqI set_map)
  qed
  show "\<forall>y\<in>set q'. \<exists>x\<in>set q. IdQueue (q_row x) = IdQueue (q_row y)
           \<and> (y = x \<or> y = x\<lparr>Status := ''processing'', Attempts := Attempts x + 1\<rparr>)
           \<and> (IdQueue (q_row x) \<in> IdQueue ` set rows
                \<longrightarrow> y = x\<lparr>Status := ''processing'', Attempts := Attempts x + 1\<rparr>)"
  proof
    fix y assume "y \<in> set q'"
    then obtain x where x: "x \<in> set q" "y = f x" unfolding q' by auto
    have "IdQueue (q_row x) \<in> IdQueue ` set rows \<Longrightarrow>
          y = x\<lparr>Status := ''processing'', Attempts := Attempts x + 1\<rparr>"
      using x(2) sub by (auto simp: f_def)
    moreover have "y = x \<or> y = x\<lparr>Status := ''processing'', Attempts := Attempts x + 1\<rparr>"
      using x(2) by (simp add: f_def)
    ultimately show "\<exists>x\<in>set q. IdQueue (q_row x) = IdQueue (q_row y)
           \<and> (y = x \<or> y = x\<lparr>Status := ''processing'', Attempts := Attempts x + 1\<rparr>)
           \<and> (IdQueue (q_row x) \<in> IdQueue ` set rows
                \<longrightarrow> y = x\<lparr>Status := ''processing'', Attempts := Attempts x + 1\<rparr>)"
      using x idf by auto
  qed
qed

lemma second_claim_disjoint:
  assumes claim: "fetch_batch n (T_QUEUE (committed c)) = (q, rows)"
    and "open": "T_QUEUE (working c) = q"
    and ids: "distinct (map (\<lambda>x. IdQueue (q_row x)) (T_QUEUE (committed c)))"
  shows "IdQueue ` set rows \<inter> IdQueue ` set (second_claim m c) = {}"
proof (rule ccontr)
  assume "IdQueue ` set rows \<inter> IdQueue ` set (second_claim m c) \<noteq> {}"
  then obtain r' where r': "r' \<in> set (second_claim m c)" "IdQueue r' \<in> IdQueue ` set rows"
    by (metis disjoint_iff imageE)
  obtain q2 where second: "fetch_batch m (unlocked c) = (q2, second_claim m c)"
    by (cases "fetch_batch m (unlocked c)") (simp add: second_claim_def)
  from fetch_batch_ids(2) [OF second] r'(1) obtain x where
    x: "x \<in> set (unlocked c)" "IdQueue (q_row x) = IdQueue r'" by blast
  then have xc: "x \<in> set (T_QUEUE (committed c))" and xw: "x \<in> set q"
    using "open" by (simp_all add: unlocked_def)
  from fetch_batch_rows_ids(2) [OF claim] xw obtain z where
    z: "z \<in> set (T_QUEUE (committed c))" "IdQueue (q_row z) = IdQueue (q_row x)"
      "IdQueue (q_row z) \<in> IdQueue ` set rows
         \<longrightarrow> x = z\<lparr>Status := ''processing'', Attempts := Attempts z + 1\<rparr>"
    by blast
  have "inj_on (\<lambda>x. IdQueue (q_row x)) (set (T_QUEUE (committed c)))"
    using ids by (simp add: distinct_map)
  with xc z(1,2) have zx: "z = x" by (auto dest: inj_onD)
  have mem: "IdQueue (q_row x) \<in> IdQueue ` set rows" using x(2) r'(2) by simp
  from z(3) have "IdQueue (q_row x) \<in> IdQueue ` set rows
      \<longrightarrow> x = x\<lparr>Status := ''processing'', Attempts := Attempts x + 1\<rparr>"
    unfolding zx .
  from this mem have "x = x\<lparr>Status := ''processing'', Attempts := Attempts x + 1\<rparr>"
    by (rule mp)
  then have "Attempts x = Attempts (x\<lparr>Status := ''processing'', Attempts := Attempts x + 1\<rparr>)"
    by (rule arg_cong)
  then show False by simp
qed

lemma example_ids: "IdQueue example_row = 1" "IdQueue second_row = 2"
  by (simp_all add: example_row_def second_row_def)

lemma first_claim:
  "fetch_batch 300 (T_QUEUE (working example_cnx))
     = (T_QUEUE (working claimed_cnx), [example_row, second_row])"
  by (simp add: fetch_batch_def example_cnx_def example_db_def example_queue_def Let_def
      example_ids claimed_cnx_def)

lemma claimed_cnx_open:
  "example_cnx\<lparr>working := (working example_cnx)\<lparr>T_QUEUE := T_QUEUE (working claimed_cnx)\<rparr>\<rparr>
     = claimed_cnx"
  by (simp add: claimed_cnx_def)

lemma claimed_locked: "second_claim 300 claimed_cnx = []"
  by (simp add: second_claim_def unlocked_def claimed_cnx_def example_cnx_def example_db_def
      example_queue_def fetch_batch_def Let_def)

lemma first_item_fails:
  "process_item 3 (example_env post_authorized first_insert_fails) 3600002000 claimed_cnx
     example_row
   = Inr (\<lparr>committed = after_failure_db, working = after_failure_db\<rparr>, False)"
  by (simp add: batch_defs claimed_cnx_def after_failure_db_def)

lemma after_failure_queue:
  "map (\<lambda>x. (IdQueue (q_row x), Status x)) (T_QUEUE after_failure_db)
     = [(1, ''error''), (2, ''queued'')]"
  by (simp add: after_failure_db_def example_ids)

lemma after_failure_claim:
  "second_claim 300 \<lparr>committed = after_failure_db, working = after_failure_db\<rparr> = [second_row]"
  by (simp add: second_claim_def unlocked_def after_failure_db_def fetch_batch_def Let_def
      example_ids)

text \<open>
  C10 at a failing input. Of two queued invoices, both claimed by the first connection, the
  history insert of the first one raises. While the claim is open a second connection is
  handed nothing. After the \<^verbatim>\<open>except\<close> clause for the first invoice has rolled back, marked
  and committed, the committed table holds the second invoice as \<^verbatim>\<open>queued\<close> and no row of it
  is locked: the second connection is handed the second invoice, which is still in the batch
  of the first.
\<close>

theorem rollback_reopens_claim:
  "(case fetch_batch 300 (T_QUEUE (working example_cnx)) of
      (q, rows) \<Rightarrow>
        (let c1 = example_cnx\<lparr>working := (working example_cnx)\<lparr>T_QUEUE := q\<rparr>\<rparr>
         in (map IdQueue rows,
             map IdQueue (second_claim 300 c1),
             (case process_item 3 (example_env post_authorized first_insert_fails) 3600002000
                     c1 example_row of
                Inl x \<Rightarrow> None
              | Inr (c2, ok) \<Rightarrow>
                  Some (map (\<lambda>x. (IdQueue (q_row x), Status x)) (T_QUEUE (committed c2)),
                        map IdQueue (second_claim 300 c2))))))
   = ([1, 2], [], Some ([(1, ''error''), (2, ''queued'')], [2]))"
  by (simp add: first_claim claimed_cnx_open claimed_locked first_item_fails
      after_failure_queue after_failure_claim example_ids Let_def)

end
